theory Spec2Isabelle
  imports Main "HOL-Library.Word"
begin

unbundle bit_operations_syntax

section \<open>Frame codec (internal/protocol/message.go)\<close>

type_synonym byte = "8 word"

definition TypeHTTPRequest :: "8 word" where "TypeHTTPRequest = 1"
definition TypeHTTPResponse :: "8 word" where "TypeHTTPResponse = 2"
definition TypeBodyChunk :: "8 word" where "TypeBodyChunk = 3"
definition TypeStreamClose :: "8 word" where "TypeStreamClose = 4"
definition TypePing :: "8 word" where "TypePing = 5"
definition TypePong :: "8 word" where "TypePong = 6"
definition TypeAuthChallenge :: "8 word" where "TypeAuthChallenge = 7"
definition TypeAuthResponse :: "8 word" where "TypeAuthResponse = 8"

definition HeaderSize :: nat where "HeaderSize = 9"

definition MaxPayloadSize :: nat where "MaxPayloadSize = 64 * 1024"

record Frame =
  Type :: "8 word"
  StreamID :: "32 word"
  Payload :: "byte list"

text \<open>The three ways the codec fails, each carrying the numbers of the Go error message.\<close>

datatype codec_error =
    BufferTooSmall nat
  | PayloadTooLarge nat nat
  | DataTooShort nat nat

text \<open>\<open>binary.BigEndian.PutUint32\<close> and \<open>binary.BigEndian.Uint32\<close> on a four-byte slice:
  the most significant byte comes first.\<close>

definition PutUint32 :: "32 word \<Rightarrow> byte list" where
  "PutUint32 v = [ucast (drop_bit 24 v), ucast (drop_bit 16 v), ucast (drop_bit 8 v), ucast v]"

definition Uint32 :: "byte list \<Rightarrow> 32 word" where
  "Uint32 b = push_bit 24 (ucast (b ! 0)) OR push_bit 16 (ucast (b ! 1))
                OR push_bit 8 (ucast (b ! 2)) OR ucast (b ! 3)"

text \<open>\<open>_encode_header\<close> fills the first nine bytes of the buffer; \<open>uint32(len(f.Payload))\<close>
  is the length reduced modulo \<open>2 ^ 32\<close>.\<close>

definition encode_header :: "Frame \<Rightarrow> byte list" where
  "encode_header f =
     Type f # PutUint32 (StreamID f) @ PutUint32 (of_nat (length (Payload f)))"

definition decode_header :: "byte list \<Rightarrow> codec_error + (8 word \<times> 32 word \<times> 32 word)" where
  "decode_header buf =
     (if length buf < HeaderSize then Inl (BufferTooSmall (length buf))
      else
        let msgType = buf ! 0;
            streamID = Uint32 (take 4 (drop 1 buf));
            payloadLen = Uint32 (take 4 (drop 5 buf))
        in if unat payloadLen > MaxPayloadSize
           then Inl (PayloadTooLarge (unat payloadLen) MaxPayloadSize)
           else Inr (msgType, streamID, payloadLen))"

definition MarshalFrame :: "Frame \<Rightarrow> codec_error + byte list" where
  "MarshalFrame f =
     (if length (Payload f) > MaxPayloadSize
      then Inl (PayloadTooLarge (length (Payload f)) MaxPayloadSize)
      else Inr (encode_header f @ Payload f))"

definition UnmarshalFrame :: "byte list \<Rightarrow> codec_error + Frame" where
  "UnmarshalFrame data =
     (case decode_header data of
        Inl err \<Rightarrow> Inl err
      | Inr (msgType, streamID, payloadLen) \<Rightarrow>
          let totalLen = HeaderSize + unat payloadLen
          in if length data < totalLen
             then Inl (DataTooShort (length data) totalLen)
             else Inr \<lparr>Type = msgType, StreamID = streamID,
                       Payload = take (totalLen - HeaderSize) (drop HeaderSize data)\<rparr>)"

text \<open>The payload length a buffer of at least nine bytes declares in bytes 5 to 8.\<close>

definition declared_payload_len :: "byte list \<Rightarrow> nat" where
  "declared_payload_len buf = unat (Uint32 (take 4 (drop 5 buf)))"

section \<open>Payload fragmentation (relay/handler.go, agent/tunnel.go)\<close>

text \<open>The \<open>for i := 0; i < len(payload); i += MaxPayloadSize\<close> loop of
  \<open>_chunk_payload\<close>, with the slice of frames built so far as an accumulator.
  \<open>payload[i:e]\<close> is \<open>take (e - i) (drop i payload)\<close>.\<close>

function chunk_loop :: "32 word \<Rightarrow> 8 word \<Rightarrow> byte list \<Rightarrow> nat \<Rightarrow> Frame list \<Rightarrow> Frame list" where
  "chunk_loop streamID firstType payload i frames =
     (if i < length payload then
        let e0 = i + MaxPayloadSize;
            e = (if e0 > length payload then length payload else e0);
            msgType = (if i = 0 then firstType else TypeBodyChunk)
        in chunk_loop streamID firstType payload (i + MaxPayloadSize)
             (frames @ [\<lparr>Type = msgType, StreamID = streamID,
                          Payload = take (e - i) (drop i payload)\<rparr>])
      else frames)"
  by pat_completeness auto
termination
  by (relation "measure (\<lambda>(streamID, firstType, payload, i, frames). length payload - i)")
     (auto simp add: MaxPayloadSize_def)

declare chunk_loop.simps [simp del]

definition chunk_payload :: "32 word \<Rightarrow> 8 word \<Rightarrow> byte list \<Rightarrow> Frame list" where
  "chunk_payload streamID firstType payload =
     (if length payload \<le> MaxPayloadSize
      then [\<lparr>Type = firstType, StreamID = streamID, Payload = payload\<rparr>]
      else chunk_loop streamID firstType payload 0 [])"

text \<open>The agent's \<open>_response_frames\<close> is written out a second time in the source, with
  \<open>TypeHTTPResponse\<close> in the place of the first type.\<close>

function response_loop :: "32 word \<Rightarrow> byte list \<Rightarrow> nat \<Rightarrow> Frame list \<Rightarrow> Frame list" where
  "response_loop streamID data i frames =
     (if i < length data then
        let e0 = i + MaxPayloadSize;
            e = (if e0 > length data then length data else e0);
            msgType = (if i = 0 then TypeHTTPResponse else TypeBodyChunk)
        in response_loop streamID data (i + MaxPayloadSize)
             (frames @ [\<lparr>Type = msgType, StreamID = streamID,
                          Payload = take (e - i) (drop i data)\<rparr>])
      else frames)"
  by pat_completeness auto
termination
  by (relation "measure (\<lambda>(streamID, data, i, frames). length data - i)")
     (auto simp add: MaxPayloadSize_def)

declare response_loop.simps [simp del]

definition response_frames :: "32 word \<Rightarrow> byte list \<Rightarrow> Frame list" where
  "response_frames streamID data =
     (if length data \<le> MaxPayloadSize
      then [\<lparr>Type = TypeHTTPResponse, StreamID = streamID, Payload = data\<rparr>]
      else response_loop streamID data 0 [])"

section \<open>Agent pool (relay pool)\<close>

text \<open>The pool holds its tunnels in a slice and a 64-bit atomic counter. The tunnels are
  pointers in the source; here they are values of any type, compared by equality.\<close>

record 'a Pool =
  tunnels :: "'a list"
  counter :: "64 word"

datatype pool_error = NoAgents

definition NewPool :: "'a Pool" where
  "NewPool = \<lparr>tunnels = [], counter = 0\<rparr>"

definition Add :: "'a Pool \<Rightarrow> 'a \<Rightarrow> 'a Pool" where
  "Add p t = p\<lparr>tunnels := tunnels p @ [t]\<rparr>"

text \<open>\<open>Remove\<close> unlinks the first position holding the tunnel and returns.\<close>

definition Remove :: "'a Pool \<Rightarrow> 'a \<Rightarrow> 'a Pool" where
  "Remove p t = p\<lparr>tunnels := remove1 t (tunnels p)\<rparr>"

text \<open>\<open>Get\<close>: \<open>counter.Add(1)\<close> returns the incremented value, which wraps at \<open>2 ^ 64\<close>;
  the index is its remainder by \<open>uint64(len(p.tunnels))\<close>. An empty pool leaves the
  counter alone.\<close>

definition Get :: "'a Pool \<Rightarrow> (pool_error + 'a) \<times> 'a Pool" where
  "Get p =
     (if length (tunnels p) = 0 then (Inl NoAgents, p)
      else
        let c = counter p + 1;
            idx = c mod (of_nat (length (tunnels p)) :: 64 word)
        in (Inr (tunnels p ! unat idx), p\<lparr>counter := c\<rparr>))"

definition Size :: "'a Pool \<Rightarrow> nat" where
  "Size p = length (tunnels p)"

text \<open>\<open>n\<close> consecutive calls of \<open>Get\<close>, with the results in call order.\<close>

fun Get_calls :: "nat \<Rightarrow> 'a Pool \<Rightarrow> (pool_error + 'a) list \<times> 'a Pool" where
  "Get_calls 0 p = ([], p)"
| "Get_calls (Suc n) p =
     (case Get p of (r, p') \<Rightarrow> (case Get_calls n p' of (rs, p'') \<Rightarrow> (r # rs, p'')))"

section \<open>Relay tunnel (relay side of one agent connection)\<close>

text \<open>The state of one relay-side tunnel. \<open>streams\<close> is the stream registry: a registered
  stream id maps to the frames the read loop has sent into its channel so far. The
  websocket is the list \<open>sent\<close> of messages written and the function \<open>conn_ok\<close>, which
  says for each call of \<open>conn.WriteMessage\<close>, counted by \<open>attempts\<close>, whether it succeeds.
  \<open>tlog\<close> collects the messages the tunnel logs, \<open>tdone\<close> is the closed \<open>done\<close> channel.\<close>

record Tunnel =
  streams :: "32 word \<rightharpoonup> Frame list"
  conn_ok :: "nat \<Rightarrow> bool"
  attempts :: nat
  sent :: "byte list list"
  tlog :: "string list"
  tdone :: bool

datatype write_error = MarshalError codec_error | ConnError

text \<open>\<open>Codec.WriteFrame\<close>: a frame that does not marshal never reaches the connection.\<close>

definition WriteFrame :: "Tunnel \<Rightarrow> Frame \<Rightarrow> write_error option \<times> Tunnel" where
  "WriteFrame t f =
     (case MarshalFrame f of
        Inl err \<Rightarrow> (Some (MarshalError err), t)
      | Inr data \<Rightarrow>
          if conn_ok t (attempts t)
          then (None, t\<lparr>attempts := Suc (attempts t), sent := sent t @ [data]\<rparr>)
          else (Some ConnError, t\<lparr>attempts := Suc (attempts t)\<rparr>))"

definition remove_stream :: "Tunnel \<Rightarrow> 32 word \<Rightarrow> Tunnel" where
  "remove_stream t streamID =
     (case streams t streamID of
        Some ch \<Rightarrow> t\<lparr>streams := (streams t)(streamID := None)\<rparr>
      | None \<Rightarrow> t)"

text \<open>\<open>SendRequest\<close> registers a new, empty channel under the frame's stream id, writes the
  frame, and on a write failure removes the stream again.\<close>

definition SendRequest :: "Tunnel \<Rightarrow> Frame \<Rightarrow> write_error option \<times> Tunnel" where
  "SendRequest t f =
     (let t1 = t\<lparr>streams := (streams t)(StreamID f \<mapsto> [])\<rparr>
      in case WriteFrame t1 f of
           (Some err, t2) \<Rightarrow> (Some err, remove_stream t2 (StreamID f))
         | (None, t2) \<Rightarrow> (None, t2))"

definition SendFrame :: "Tunnel \<Rightarrow> Frame \<Rightarrow> write_error option \<times> Tunnel" where
  "SendFrame t f = WriteFrame t f"

text \<open>\<open>Close\<close> runs its body once: it closes \<open>done\<close>, closes and deletes every stream.\<close>

definition Close :: "Tunnel \<Rightarrow> Tunnel" where
  "Close t =
     (if tdone t then t
      else t\<lparr>tdone := True, streams := Map.empty, tlog := tlog t @ [''tunnel closed'']\<rparr>)"

text \<open>One pass through the body of \<open>_read_loop\<close> for a frame that \<open>ReadFrame\<close> returned.
  The \<open>select\<close> that sends the frame into the stream's channel depends on the reader of
  the channel and on the scheduler; the case it takes is an argument. \<open>CaseDone\<close> can only
  be taken when \<open>done\<close> is closed; a \<open>select\<close> with no case ready blocks.\<close>

datatype select_case = CaseSend | CaseDone | NoCase

datatype loop_ctl = Continue | Return | Blocked

definition read_loop_step :: "select_case \<Rightarrow> Tunnel \<Rightarrow> Frame \<Rightarrow> loop_ctl \<times> Tunnel" where
  "read_loop_step sel t frame =
     (if Type frame = TypePong then (Continue, t)
      else if Type frame = TypeHTTPResponse \<or> Type frame = TypeBodyChunk
              \<or> Type frame = TypeStreamClose then
        (case streams t (StreamID frame) of
           None \<Rightarrow> (Continue, t)
         | Some ch \<Rightarrow>
             (case sel of
                CaseSend \<Rightarrow>
                  let t1 = t\<lparr>streams := (streams t)(StreamID frame \<mapsto> ch @ [frame])\<rparr>
                  in if Type frame = TypeStreamClose
                     then (Continue, remove_stream t1 (StreamID frame))
                     else (Continue, t1)
              | CaseDone \<Rightarrow> if tdone t then (Return, Close t) else (Blocked, t)
              | NoCase \<Rightarrow> (Blocked, t)))
      else (Continue, t\<lparr>tlog := tlog t @ [''unexpected frame type from agent'']\<rparr>))"

section \<open>Relay request handler (relay/handler.go)\<close>

record TunnelledRequest =
  Method :: string
  URL :: string
  ReqHeaders :: "string \<rightharpoonup> string"
  ReqBody :: "byte list"

record TunnelledResponse =
  StatusCode :: int
  Headers :: "string \<rightharpoonup> string"
  Body :: "byte list"

text \<open>What the handler does to its \<open>http.ResponseWriter\<close>: one call of \<open>http.Error\<close>
  with a message and a status code; or the header values set, the status code written
  and the body written; or, when \<open>WriteHeader\<close> is called with a code outside 100 to 999,
  the header values set and then the panic of \<open>net/http\<close> (\<open>invalid WriteHeader code\<close>),
  after which nothing more is written.\<close>

datatype http_out =
    HttpError string nat
  | Written int "string \<rightharpoonup> string" "byte list"
  | WriteHeaderPanic "string \<rightharpoonup> string" int

text \<open>\<open>_write_response\<close>, with \<open>json.Unmarshal\<close> as the parameter \<open>json_unmarshal\<close>. The
  second component holds the messages logged. The headers are set first; \<open>WriteHeader\<close>
  panics for a status code below 100 or above 999, and then \<open>w.Write\<close> is not reached.
  The body is written only when it is not empty.\<close>

definition write_response ::
  "(byte list \<Rightarrow> string + TunnelledResponse) \<Rightarrow> byte list \<Rightarrow> http_out \<times> string list" where
  "write_response json_unmarshal data =
     (if length data = 0 then (HttpError ''empty response from backend'' 502, [])
      else case json_unmarshal data of
             Inl err \<Rightarrow> (HttpError ''invalid response from backend'' 502,
                          [''failed to unmarshal response''])
           | Inr resp \<Rightarrow>
               if StatusCode resp < 100 \<or> StatusCode resp > 999
               then (WriteHeaderPanic (Headers resp) (StatusCode resp), [])
               else (Written (StatusCode resp) (Headers resp)
                       (if length (Body resp) > 0 then Body resp else []), []))"

text \<open>What one pass of the \<open>select\<close> in \<open>_collect_response\<close> can receive: a frame from the
  channel, the closing of the channel, or the timer. The function takes the events in the
  order in which the \<open>select\<close> sees them and the response bytes accumulated so far; it is
  \<open>None\<close> when the events end before the loop returns.\<close>

datatype event = Recv Frame | ChanClosed | TimerFired

fun collect_response ::
  "(byte list \<Rightarrow> string + TunnelledResponse) \<Rightarrow> event list \<Rightarrow> byte list
     \<Rightarrow> (http_out \<times> string list) option" where
  "collect_response json_unmarshal [] responseData = None"
| "collect_response json_unmarshal (ChanClosed # es) responseData =
     (if length responseData = 0 then Some (HttpError ''tunnel closed'' 502, [])
      else Some (write_response json_unmarshal responseData))"
| "collect_response json_unmarshal (Recv frame # es) responseData =
     (if Type frame = TypeHTTPResponse
        then collect_response json_unmarshal es (responseData @ Payload frame)
      else if Type frame = TypeBodyChunk
        then collect_response json_unmarshal es (responseData @ Payload frame)
      else if Type frame = TypeStreamClose
        then Some (write_response json_unmarshal responseData)
      else collect_response json_unmarshal es responseData)"
| "collect_response json_unmarshal (TimerFired # es) responseData =
     Some (HttpError ''request timed out'' 504, [''request timed out waiting for response''])"

text \<open>The relay process as the handler sees it: the pool of tunnel ids, the tunnels
  themselves, the process-wide stream counter of the protocol package, and the log.\<close>

record Relay =
  pool :: "nat Pool"
  links :: "nat \<Rightarrow> Tunnel"
  stream_counter :: "64 word"
  slog :: "string list"

text \<open>The loop over the continuation frames (\<open>i > 0\<close>) stops at the first failure.\<close>

fun send_rest :: "Tunnel \<Rightarrow> Frame list \<Rightarrow> write_error option \<times> Tunnel" where
  "send_rest t [] = (None, t)"
| "send_rest t (f # fs) =
     (case SendFrame t f of
        (Some err, t') \<Rightarrow> (Some err, t')
      | (None, t') \<Rightarrow> send_rest t' fs)"

text \<open>\<open>ServeHTTP\<close>. \<open>built\<close> is the result of \<open>_build_tunnelled_request\<close>, which reads
  the body of the incoming request; \<open>json_marshal\<close> and \<open>json_unmarshal\<close> stand for the
  JSON library; \<open>events\<close> is what the response channel and the timer deliver. The result
  is the response written, \<open>None\<close> while the handler still waits, and the relay
  afterwards. \<open>_chunk_payload\<close> never returns an empty list, so the loop over the frames
  always sends a first frame with \<open>SendRequest\<close>; for an empty list nothing would be
  sent before the closing frame.\<close>

definition ServeHTTP ::
  "(TunnelledRequest \<Rightarrow> string + byte list) \<Rightarrow> (byte list \<Rightarrow> string + TunnelledResponse)
     \<Rightarrow> Relay \<Rightarrow> string + TunnelledRequest \<Rightarrow> event list \<Rightarrow> http_out option \<times> Relay" where
  "ServeHTTP json_marshal json_unmarshal h built events =
     (case Get (pool h) of
        (Inl err, p1) \<Rightarrow>
          (Some (HttpError ''no backend agents connected'' 502),
           h\<lparr>pool := p1, slog := slog h @ [''no agent available'']\<rparr>)
      | (Inr tid, p1) \<Rightarrow>
          (case built of
             Inl err \<Rightarrow>
               (Some (HttpError ''internal error'' 500),
                h\<lparr>pool := p1, slog := slog h @ [''failed to build tunnelled request'']\<rparr>)
           | Inr req \<Rightarrow>
               (case json_marshal req of
                  Inl err \<Rightarrow>
                    (Some (HttpError ''internal error'' 500),
                     h\<lparr>pool := p1, slog := slog h @ [''failed to marshal request'']\<rparr>)
                | Inr payload \<Rightarrow>
                    let c = stream_counter h + 1;
                        streamID = (ucast c :: 32 word);
                        h1 = h\<lparr>pool := p1, stream_counter := c\<rparr>;
                        frames = chunk_payload streamID TypeHTTPRequest payload;
                        (err1, t1) = (case frames of [] \<Rightarrow> (None, links h1 tid)
                                      | f # fs \<Rightarrow> SendRequest (links h1 tid) f)
                    in if err1 \<noteq> None then
                         (Some (HttpError ''tunnel error'' 502),
                          h1\<lparr>links := (links h1)(tid := t1),
                             slog := slog h1 @ [''failed to send request'']\<rparr>)
                       else
                         let (err2, t2) = send_rest t1 (tl frames)
                         in if err2 \<noteq> None then
                              (Some (HttpError ''tunnel error'' 502),
                               h1\<lparr>links := (links h1)(tid := t2),
                                  slog := slog h1 @ [''failed to send body chunk'']\<rparr>)
                            else
                              let (err3, t3) = SendFrame t2
                                     \<lparr>Type = TypeStreamClose, StreamID = streamID, Payload = []\<rparr>;
                                  lg = (if err3 \<noteq> None then [''failed to send stream close'']
                                        else []);
                                  h2 = h1\<lparr>links := (links h1)(tid := t3), slog := slog h1 @ lg\<rparr>
                              in case collect_response json_unmarshal events [] of
                                   None \<Rightarrow> (None, h2)
                                 | Some (out, lg2) \<Rightarrow>
                                     (Some out, h2\<lparr>slog := slog h2 @ lg2\<rparr>))))"

text \<open>The response bytes that a list of received frames accumulates: the payloads of
  its \<open>TypeHTTPResponse\<close> and \<open>TypeBodyChunk\<close> frames, in order.\<close>

abbreviation response_bytes :: "Frame list \<Rightarrow> byte list" where
  "response_bytes fs \<equiv>
     concat (map Payload (filter (\<lambda>f. Type f = TypeHTTPResponse \<or> Type f = TypeBodyChunk) fs))"

section \<open>Token authorization (relay auth)\<close>

text \<open>A Go string is a sequence of bytes; \<open>[]byte(s)\<close> reads them.\<close>

definition bytes_of :: "string \<Rightarrow> byte list" where
  "bytes_of s = map of_char s"

text \<open>\<open>crypto/hmac\<close> of the Go standard library (RFC 2104) with a hash of block size 64,
  as \<open>hmac.New(sha256.New, key)\<close> builds it: a key longer than the block is hashed, the key
  is padded with zero bytes to the block size, and the digest is
  \<open>H((key XOR opad) || H((key XOR ipad) || message))\<close>. The hash function SHA-256 itself is
  the parameter \<open>H\<close>.\<close>

definition hmac_sum :: "(byte list \<Rightarrow> byte list) \<Rightarrow> byte list \<Rightarrow> byte list \<Rightarrow> byte list" where
  "hmac_sum H key message =
     (let k0 = (if length key > 64 then H key else key);
          k = k0 @ replicate (64 - length k0) 0;
          ipad = map (\<lambda>b. b XOR 0x36) k;
          opad = map (\<lambda>b. b XOR 0x5c) k
      in H (opad @ H (ipad @ message)))"

text \<open>\<open>hex.EncodeToString\<close>: two lower-case hexadecimal digits for each byte.\<close>

definition hextable :: string where
  "hextable = ''0123456789abcdef''"

definition EncodeToString :: "byte list \<Rightarrow> string" where
  "EncodeToString src =
     concat (map (\<lambda>b. [hextable ! (unat b div 16), hextable ! (unat b mod 16)]) src)"

definition compute_hmac :: "(byte list \<Rightarrow> byte list) \<Rightarrow> string \<Rightarrow> string \<Rightarrow> string" where
  "compute_hmac H secret message =
     EncodeToString (hmac_sum H (bytes_of secret) (bytes_of message))"

text \<open>\<open>strconv.FormatInt(x, 10)\<close>: the decimal digits, after a minus sign for a negative
  number.\<close>

definition digit_char :: "nat \<Rightarrow> char" where
  "digit_char d = char_of (48 + d)"

function decimal :: "nat \<Rightarrow> string" where
  "decimal n = (if n < 10 then [digit_char n] else decimal (n div 10) @ [digit_char (n mod 10)])"
  by pat_completeness auto
termination
  by (relation "measure id") auto

declare decimal.simps [simp del]

definition FormatInt :: "int \<Rightarrow> string" where
  "FormatInt x = (if x < 0 then CHR ''-'' # decimal (nat (- x)) else decimal (nat x))"

text \<open>\<open>strconv.ParseInt(s, 10, 64)\<close>: an optional sign, then at least one decimal digit and
  nothing else; the digits are read from the left, and the first character that is not a
  digit is a syntax error, the first step beyond 64 unsigned bits a range error; the
  signed value has to fit into 64 bits.\<close>

datatype parse_error = ErrSyntax | ErrRange

definition is_digit :: "char \<Rightarrow> bool" where
  "is_digit c = (48 \<le> (of_char c :: nat) \<and> (of_char c :: nat) \<le> 57)"

definition digit_val :: "char \<Rightarrow> nat" where
  "digit_val c = of_char c - 48"

fun parse_digits :: "nat \<Rightarrow> string \<Rightarrow> parse_error + nat" where
  "parse_digits n [] = Inr n"
| "parse_digits n (c # cs) =
     (if \<not> is_digit c then Inl ErrSyntax
      else let n1 = n * 10 + digit_val c
           in if n1 \<ge> 2 ^ 64 then Inl ErrRange else parse_digits n1 cs)"

definition ParseInt :: "string \<Rightarrow> parse_error + int" where
  "ParseInt s =
     (if s = [] then Inl ErrSyntax
      else
        let neg = (hd s = CHR ''-'');
            s1 = (if hd s = CHR ''+'' \<or> hd s = CHR ''-'' then tl s else s)
        in if s1 = [] then Inl ErrSyntax
           else case parse_digits 0 s1 of
                  Inl err \<Rightarrow> Inl err
                | Inr un \<Rightarrow>
                    if \<not> neg \<and> un \<ge> 2 ^ 63 then Inl ErrRange
                    else if neg \<and> un > 2 ^ 63 then Inl ErrRange
                    else Inr (if neg then - int un else int un))"

text \<open>\<open>strings.SplitN(token, ":", 2)\<close>: the whole string when it has no colon, otherwise
  the part before the first colon and all that follows it.\<close>

definition SplitN2 :: "string \<Rightarrow> string list" where
  "SplitN2 s =
     (if CHR '':'' \<in> set s
      then [takeWhile (\<lambda>c. c \<noteq> CHR '':'') s, tl (dropWhile (\<lambda>c. c \<noteq> CHR '':'') s)]
      else [s])"

text \<open>\<open>float64(x)\<close> for a 64-bit integer: the nearest number with 53 significant bits, ties
  to the even one. \<open>float_exp a\<close> is the number of low bits that do not fit. The values
  of the floating-point numbers that occur are integers and are kept as such.\<close>

function float_exp :: "int \<Rightarrow> nat" where
  "float_exp a = (if a < 2 ^ 53 then 0 else Suc (float_exp (a div 2)))"
  by pat_completeness auto
termination
  by (relation "measure nat") auto

declare float_exp.simps [simp del]

definition float64_of_int :: "int \<Rightarrow> int" where
  "float64_of_int x =
     (let a = \<bar>x\<bar>; e = float_exp a
      in if e = 0 then x
         else
           let q = a div 2 ^ e; r = a mod 2 ^ e; h = 2 ^ (e - 1);
               q1 = (if r > h \<or> (r = h \<and> odd q) then q + 1 else q)
           in sgn x * (q1 * 2 ^ e))"

text \<open>\<open>time.Duration(f)\<close> for a floating-point number \<open>f\<close> with an integer value: the
  number itself when a signed 64-bit integer holds it. Otherwise Go leaves the result to
  the implementation; \<open>oob\<close> is what the platform gives then.\<close>

definition int64_of_float :: "64 word \<Rightarrow> int \<Rightarrow> 64 word" where
  "int64_of_float oob f = (if - (2 ^ 63) \<le> f \<and> f < 2 ^ 63 then word_of_int f else oob)"

definition Second :: "64 word" where
  "Second = 1000000000"

definition token_validity :: "64 word" where
  "token_validity = 5 * (60 * Second)"

datatype token_error = Malformed | InvalidTimestamp parse_error | Expired | InvalidSignature

text \<open>\<open>GenerateToken\<close> and \<open>ValidateToken\<close>, with the reading \<open>now\<close> of
  \<open>time.Now().Unix()\<close> as an argument. The subtraction and the multiplication by
  \<open>time.Second\<close> are those of signed 64-bit integers and wrap around; the comparison with
  the validity window is signed. \<open>hmac.Equal\<close> is the equality of the two byte strings.\<close>

definition GenerateToken :: "(byte list \<Rightarrow> byte list) \<Rightarrow> 64 word \<Rightarrow> string \<Rightarrow> string" where
  "GenerateToken H now secret =
     (let ts = FormatInt (sint now);
          mac = compute_hmac H secret ts
      in mac @ '':'' @ ts)"

definition ValidateToken ::
  "(byte list \<Rightarrow> byte list) \<Rightarrow> 64 word \<Rightarrow> 64 word \<Rightarrow> string \<Rightarrow> string \<Rightarrow> token_error + unit" where
  "ValidateToken H oob now secret token =
     (let parts = SplitN2 token
      in if length parts \<noteq> 2 then Inl Malformed
         else
           let mac = parts ! 0; tsStr = parts ! 1
           in case ParseInt tsStr of
                Inl err \<Rightarrow> Inl (InvalidTimestamp err)
              | Inr tsv \<Rightarrow>
                  let ts = (word_of_int tsv :: 64 word);
                      diff = int64_of_float oob \<bar>float64_of_int (sint (now - ts))\<bar> * Second
                  in if sint diff > sint token_validity then Inl Expired
                     else
                       let expected = compute_hmac H secret tsStr
                       in if mac \<noteq> expected then Inl InvalidSignature else Inr ())"

section \<open>Big-endian words\<close>

lemma Uint32_PutUint32: "Uint32 (PutUint32 v) = v"
proof (rule bit_word_eqI)
  fix n :: nat
  assume "n < LENGTH(32)"
  then consider "n < 8" | "8 \<le> n" "n < 16" | "16 \<le> n" "n < 24" | "24 \<le> n" "n < 32"
    by fastforce
  then show "bit (Uint32 (PutUint32 v)) n = bit v n"
    by cases (auto simp add: Uint32_def PutUint32_def bit_simps nth_Cons')
qed

lemma length_PutUint32: "length (PutUint32 v) = 4"
  by (simp add: PutUint32_def)

lemma length_encode_header: "length (encode_header f) = HeaderSize"
  by (simp add: encode_header_def length_PutUint32 HeaderSize_def)

section \<open>Frame codec: round trip and size limits\<close>

lemma decode_encode_header:
  assumes "length (Payload f) \<le> MaxPayloadSize"
  shows "decode_header (encode_header f @ Payload f)
         = Inr (Type f, StreamID f, of_nat (length (Payload f)))"
proof -
  have u: "unat (of_nat (length (Payload f)) :: 32 word) = length (Payload f)"
    using assms by (simp add: MaxPayloadSize_def unat_of_nat)
  have s: "take 4 (drop 1 (encode_header f @ Payload f)) = PutUint32 (StreamID f)"
    by (simp add: encode_header_def length_PutUint32)
  have p: "take 4 (drop 5 (encode_header f @ Payload f))
           = PutUint32 (of_nat (length (Payload f)))"
    by (simp add: encode_header_def length_PutUint32)
  have t: "(encode_header f @ Payload f) ! 0 = Type f"
    by (simp add: encode_header_def)
  show ?thesis
    unfolding decode_header_def s p t
    using assms by (simp add: length_encode_header Uint32_PutUint32 u)
qed

text \<open>Claim C5. Every frame whose payload has at most 65,536 bytes, whatever its type
  (so in particular the types 1 to 8) and its 32-bit stream id, is marshalled without an
  error, and unmarshalling the bytes gives the same frame back: the same type, stream id
  and payload.\<close>

theorem frame_round_trip:
  assumes "Type f \<in> {1, 2, 3, 4, 5, 6, 7, 8}" and "length (Payload f) \<le> 65536"
  shows "\<exists>b. MarshalFrame f = Inr b \<and> UnmarshalFrame b = Inr f"
proof -
  have le: "length (Payload f) \<le> MaxPayloadSize"
    using assms by (simp add: MaxPayloadSize_def)
  have u: "unat (of_nat (length (Payload f)) :: 32 word) = length (Payload f)"
    using le by (simp add: MaxPayloadSize_def unat_of_nat)
  have m: "MarshalFrame f = Inr (encode_header f @ Payload f)"
    using le by (simp add: MarshalFrame_def)
  have "UnmarshalFrame (encode_header f @ Payload f) = Inr f"
    by (simp add: UnmarshalFrame_def decode_encode_header [OF le] u length_encode_header)
  with m show ?thesis by simp
qed

theorem frame_round_trip_witness:
  "Type \<lparr>Type = 1, StreamID = 42, Payload = [104, 105]\<rparr> \<in> {1, 2, 3, 4, 5, 6, 7, 8}
   \<and> length (Payload \<lparr>Type = 1, StreamID = 42, Payload = [104, 105]\<rparr>) \<le> 65536
   \<and> (\<exists>b. MarshalFrame \<lparr>Type = 1, StreamID = 42, Payload = [104, 105]\<rparr> = Inr b
          \<and> UnmarshalFrame b = Inr \<lparr>Type = 1, StreamID = 42, Payload = [104, 105]\<rparr>)"
  using frame_round_trip [of "\<lparr>Type = 1, StreamID = 42, Payload = [104, 105]\<rparr>"]
  by simp

text \<open>Claim C6. \<open>MarshalFrame\<close> returns an error exactly when the payload has more than
  65,536 bytes. \<open>UnmarshalFrame\<close> returns an error for every buffer shorter than 9 bytes,
  for every buffer whose header declares a payload length above 65,536, and for every
  buffer shorter than 9 bytes plus the declared payload length.\<close>

theorem marshal_unmarshal_size_limits:
  "((\<exists>e. MarshalFrame f = Inl e) \<longleftrightarrow> length (Payload f) > 65536)
   \<and> (length b1 < 9 \<longrightarrow> UnmarshalFrame b1 = Inl (BufferTooSmall (length b1)))
   \<and> (9 \<le> length b2 \<and> declared_payload_len b2 > 65536 \<longrightarrow>
        UnmarshalFrame b2 = Inl (PayloadTooLarge (declared_payload_len b2) 65536))
   \<and> (9 \<le> length b3 \<and> declared_payload_len b3 \<le> 65536
        \<and> length b3 < 9 + declared_payload_len b3 \<longrightarrow>
        UnmarshalFrame b3 = Inl (DataTooShort (length b3) (9 + declared_payload_len b3)))"
  by (simp add: MarshalFrame_def UnmarshalFrame_def decode_header_def declared_payload_len_def
        HeaderSize_def MaxPayloadSize_def Let_def)

theorem marshal_unmarshal_size_limits_witness:
  "(\<exists>e. MarshalFrame \<lparr>Type = 1, StreamID = 1, Payload = replicate 65537 0\<rparr> = Inl e)
   \<and> length (Payload \<lparr>Type = 1, StreamID = 1, Payload = replicate 65537 0\<rparr>) > 65536
   \<and> length [1, 2 :: byte] < 9
   \<and> UnmarshalFrame [1, 2] = Inl (BufferTooSmall 2)
   \<and> declared_payload_len [1, 0, 0, 0, 42, 0, 1, 0, 1] = 65537
   \<and> UnmarshalFrame [1, 0, 0, 0, 42, 0, 1, 0, 1] = Inl (PayloadTooLarge 65537 65536)
   \<and> declared_payload_len [1, 0, 0, 0, 42, 0, 0, 0, 3, 104, 105] = 3
   \<and> UnmarshalFrame [1, 0, 0, 0, 42, 0, 0, 0, 3, 104, 105] = Inl (DataTooShort 11 12)"
proof -
  have d2: "declared_payload_len [1, 0, 0, 0, 42, 0, 1, 0, 1] = 65537"
    by (simp add: declared_payload_len_def Uint32_def)
  have d3: "declared_payload_len [1, 0, 0, 0, 42, 0, 0, 0, 3, 104, 105] = 3"
    by (simp add: declared_payload_len_def Uint32_def)
  show ?thesis
    using marshal_unmarshal_size_limits
      [of "\<lparr>Type = 1, StreamID = 1, Payload = replicate 65537 0\<rparr>" "[1, 2]"
          "[1, 0, 0, 0, 42, 0, 1, 0, 1]" "[1, 0, 0, 0, 42, 0, 0, 0, 3, 104, 105]"]
    by (simp add: d2 d3)
qed

text \<open>Claim C10. A buffer longer than 9 bytes plus its declared payload length, that
  length being at most 65,536, is never rejected: \<open>UnmarshalFrame\<close> returns the frame whose
  payload is the declared number of bytes after the 9-byte header, and the bytes after
  them play no part in the result.\<close>

theorem unmarshal_ignores_trailing_bytes:
  assumes "declared_payload_len buf \<le> 65536"
    and "length buf > 9 + declared_payload_len buf"
  shows "UnmarshalFrame buf =
           Inr \<lparr>Type = buf ! 0, StreamID = Uint32 (take 4 (drop 1 buf)),
                Payload = take (declared_payload_len buf) (drop 9 buf)\<rparr>"
  using assms
  by (simp add: UnmarshalFrame_def decode_header_def declared_payload_len_def
        HeaderSize_def MaxPayloadSize_def Let_def)

theorem unmarshal_ignores_trailing_bytes_witness:
  "declared_payload_len [1, 0, 0, 0, 42, 0, 0, 0, 2, 104, 105, 7, 7] \<le> 65536
   \<and> length [1, 0, 0, 0, 42, 0, 0, 0, 2, 104, 105, 7, 7 :: byte]
       > 9 + declared_payload_len [1, 0, 0, 0, 42, 0, 0, 0, 2, 104, 105, 7, 7]
   \<and> UnmarshalFrame [1, 0, 0, 0, 42, 0, 0, 0, 2, 104, 105, 7, 7]
       = Inr \<lparr>Type = 1, StreamID = 42, Payload = [104, 105]\<rparr>"
proof -
  have d: "declared_payload_len [1, 0, 0, 0, 42, 0, 0, 0, 2, 104, 105, 7, 7] = 2"
    by (simp add: declared_payload_len_def Uint32_def)
  have s: "Uint32 [0, 0, 0, 42] = 42"
    by (simp add: Uint32_def)
  show ?thesis
    using unmarshal_ignores_trailing_bytes [of "[1, 0, 0, 0, 42, 0, 0, 0, 2, 104, 105, 7, 7]"]
    by (simp add: d s)
qed

section \<open>Payload fragmentation: the frames of a payload\<close>


lemma chunk_loop_done: "length p \<le> i \<Longrightarrow> chunk_loop sid ft p i acc = acc"
  by (subst chunk_loop.simps) simp

lemma chunk_loop_unfold:
  "i < length p \<Longrightarrow>
   chunk_loop sid ft p i acc =
     chunk_loop sid ft p (i + MaxPayloadSize)
       (acc @ [\<lparr>Type = (if i = 0 then ft else TypeBodyChunk), StreamID = sid,
                 Payload = take (min MaxPayloadSize (length p - i)) (drop i p)\<rparr>])"
  by (subst chunk_loop.simps) (simp add: Let_def min_def)

lemma chunk_loop_acc:
  "chunk_loop sid ft p i acc = acc @ chunk_loop sid ft p i []"
proof (induction "length p - i" arbitrary: i acc rule: less_induct)
  case less
  show ?case
  proof (cases "i < length p")
    case True
    then have d: "length p - (i + MaxPayloadSize) < length p - i"
      by (simp add: MaxPayloadSize_def)
    show ?thesis
      unfolding chunk_loop_unfold [OF True, of sid ft acc] chunk_loop_unfold [OF True, of sid ft "[]"]
      by (subst less [OF d], subst (2) less [OF d]) simp
  next
    case False
    then show ?thesis by (simp add: chunk_loop_done)
  qed
qed

lemma chunk_loop_step:
  assumes "i < length p"
  shows "chunk_loop sid ft p i [] =
     \<lparr>Type = (if i = 0 then ft else TypeBodyChunk), StreamID = sid,
      Payload = take (min MaxPayloadSize (length p - i)) (drop i p)\<rparr>
     # chunk_loop sid ft p (i + MaxPayloadSize) []"
  unfolding chunk_loop_unfold [OF assms, of sid ft "[]"]
  by (subst chunk_loop_acc) simp

lemma take_chunk_drop:
  "take (min m (length p - i)) (drop i p) @ drop (i + m) p = drop i p"
proof (cases "m \<le> length p - i")
  case True
  have "take m (drop i p) @ drop m (drop i p) = drop i p"
    by (rule append_take_drop_id)
  then show ?thesis using True by (simp add: min_def add.commute)
next
  case False
  then show ?thesis by (simp add: min_def)
qed

lemma chunk_loop_concat:
  "concat (map Payload (chunk_loop sid ft p i [])) = drop i p"
proof (induction "length p - i" arbitrary: i rule: less_induct)
  case less
  show ?case
  proof (cases "i < length p")
    case True
    then have d: "length p - (i + MaxPayloadSize) < length p - i"
      by (simp add: MaxPayloadSize_def)
    show ?thesis
      unfolding chunk_loop_step [OF True, of sid ft]
      by (simp add: less [OF d] take_chunk_drop)
  next
    case False
    then show ?thesis by (simp add: chunk_loop_done)
  qed
qed

lemma chunk_loop_frames:
  "f \<in> set (chunk_loop sid ft p i []) \<Longrightarrow>
     length (Payload f) \<le> MaxPayloadSize \<and> StreamID f = sid \<and> (0 < i \<longrightarrow> Type f = TypeBodyChunk)"
proof (induction "length p - i" arbitrary: i rule: less_induct)
  case less
  show ?case
  proof (cases "i < length p")
    case True
    then have d: "length p - (i + MaxPayloadSize) < length p - i"
      by (simp add: MaxPayloadSize_def)
    have pos: "0 < i + MaxPayloadSize" by (simp add: MaxPayloadSize_def)
    let ?fr = "\<lparr>Type = (if i = 0 then ft else TypeBodyChunk), StreamID = sid,
      Payload = take (min MaxPayloadSize (length p - i)) (drop i p)\<rparr>"
    from less(2) have "f = ?fr \<or> f \<in> set (chunk_loop sid ft p (i + MaxPayloadSize) [])"
      unfolding chunk_loop_step [OF True, of sid ft] by simp
    then show ?thesis
    proof
      assume "f = ?fr"
      then show ?thesis by simp
    next
      assume "f \<in> set (chunk_loop sid ft p (i + MaxPayloadSize) [])"
      from less(1) [OF d this] pos show ?thesis by blast
    qed
  next
    case False
    with less(2) show ?thesis by (simp add: chunk_loop_done)
  qed
qed

lemma ceil_div_step:
  fixes n i m :: nat
  assumes "0 < m" and "i < n"
  shows "Suc ((n - (i + m) + (m - 1)) div m) = (n - i + (m - 1)) div m"
proof (cases "m \<le> n - i")
  case True
  define a where "a = n - (i + m) + (m - 1)"
  have e: "n - i + (m - 1) = a + m" using True by (simp add: a_def)
  have "(a + m) div m = Suc (a div m)" using assms(1) by (simp add: div_add_self2)
  then show ?thesis unfolding e a_def [symmetric] by simp
next
  case False
  then have z: "n - (i + m) = 0" by simp
  have "(n - i + (m - 1)) div m = 1"
  proof (rule div_nat_eqI)
    show "m * 1 \<le> n - i + (m - 1)" using assms by simp
    show "n - i + (m - 1) < m * Suc 1" using False assms by simp
  qed
  then show ?thesis using assms(1) by (simp add: z)
qed

lemma chunk_loop_length:
  "length (chunk_loop sid ft p i []) = (length p - i + (MaxPayloadSize - 1)) div MaxPayloadSize"
proof (induction "length p - i" arbitrary: i rule: less_induct)
  case less
  have pos: "0 < MaxPayloadSize" by (simp add: MaxPayloadSize_def)
  show ?case
  proof (cases "i < length p")
    case True
    then have d: "length p - (i + MaxPayloadSize) < length p - i"
      by (simp add: MaxPayloadSize_def)
    show ?thesis
      unfolding chunk_loop_step [OF True, of sid ft]
      using less [OF d] ceil_div_step [OF pos True] by simp
  next
    case False
    then have "length p - i = 0" by simp
    then show ?thesis using pos by (simp add: chunk_loop_done [of p i] False)
  qed
qed

lemma response_loop_eq:
  "response_loop sid d i acc = chunk_loop sid TypeHTTPResponse d i acc"
proof (induction "length d - i" arbitrary: i acc rule: less_induct)
  case less
  show ?case
  proof (cases "i < length d")
    case True
    then have m: "length d - (i + MaxPayloadSize) < length d - i"
      by (simp add: MaxPayloadSize_def)
    have "response_loop sid d i acc =
            response_loop sid d (i + MaxPayloadSize)
              (acc @ [\<lparr>Type = (if i = 0 then TypeHTTPResponse else TypeBodyChunk), StreamID = sid,
                 Payload = take (min MaxPayloadSize (length d - i)) (drop i d)\<rparr>])"
      using True by (subst response_loop.simps) (simp add: Let_def min_def)
    then show ?thesis
      unfolding chunk_loop_unfold [OF True, of sid TypeHTTPResponse acc]
      by (simp only: less [OF m])
  next
    case False
    then have "response_loop sid d i acc = acc"
      by (subst response_loop.simps) simp
    with False show ?thesis by (simp add: chunk_loop_done)
  qed
qed

lemma response_frames_eq: "response_frames sid d = chunk_payload sid TypeHTTPResponse d"
  by (simp add: response_frames_def chunk_payload_def response_loop_eq)

lemma chunk_payload_props:
  "chunk_payload sid ft p \<noteq> []
   \<and> (\<forall>f \<in> set (chunk_payload sid ft p). length (Payload f) \<le> 65536 \<and> StreamID f = sid)
   \<and> Type (hd (chunk_payload sid ft p)) = ft
   \<and> (\<forall>f \<in> set (tl (chunk_payload sid ft p)). Type f = TypeBodyChunk)
   \<and> concat (map Payload (chunk_payload sid ft p)) = p
   \<and> (length p = 200000 \<longrightarrow> 4 \<le> length (chunk_payload sid ft p))"
proof (cases "length p \<le> MaxPayloadSize")
  case True
  then show ?thesis
    by (simp add: chunk_payload_def MaxPayloadSize_def)
next
  case False
  then have big: "0 < length p"
    by (cases p) simp_all
  from False have c: "chunk_payload sid ft p = chunk_loop sid ft p 0 []"
    by (simp add: chunk_payload_def)
  have s: "chunk_loop sid ft p 0 [] =
             \<lparr>Type = ft, StreamID = sid,
              Payload = take (min MaxPayloadSize (length p - 0)) (drop 0 p)\<rparr>
             # chunk_loop sid ft p MaxPayloadSize []"
    using chunk_loop_step [OF big, of sid ft] by simp
  have pos: "0 < MaxPayloadSize" by (simp add: MaxPayloadSize_def)
  have a: "\<forall>f \<in> set (chunk_loop sid ft p 0 []). length (Payload f) \<le> 65536 \<and> StreamID f = sid"
    using chunk_loop_frames [of _ sid ft p 0] by (simp add: MaxPayloadSize_def)
  have b: "\<forall>f \<in> set (chunk_loop sid ft p MaxPayloadSize []). Type f = TypeBodyChunk"
    using chunk_loop_frames [of _ sid ft p MaxPayloadSize] pos by blast
  have n: "length p = 200000 \<longrightarrow> 4 \<le> length (chunk_loop sid ft p 0 [])"
    by (simp add: chunk_loop_length MaxPayloadSize_def)
  have cc: "concat (map Payload (chunk_loop sid ft p 0 [])) = p"
    by (simp add: chunk_loop_concat)
  have ne: "chunk_loop sid ft p 0 [] \<noteq> []" and h: "Type (hd (chunk_loop sid ft p 0 [])) = ft"
    and t: "tl (chunk_loop sid ft p 0 []) = chunk_loop sid ft p MaxPayloadSize []"
    by (simp_all add: s)
  show ?thesis
    unfolding c using ne a h b cc n by (simp only: t simp_thms)
qed

text \<open>Claim C7. For every payload, stream id and first type, the relay's
  \<open>_chunk_payload\<close> returns a list of frames that is not empty, in which every payload has
  at most 65,536 bytes, the first frame has the first type (\<open>TypeHTTPRequest\<close> where the
  request handler calls it), every later frame has type \<open>TypeBodyChunk\<close>, every frame has
  the given stream id, and the payloads in order concatenate to the payload; a payload of
  200,000 bytes gives at least 4 frames. The agent's \<open>_response_frames\<close> does the same with
  \<open>TypeHTTPResponse\<close> as the first type.\<close>

theorem payload_fragmentation:
  "(let fs = chunk_payload sid ft p in
      fs \<noteq> []
      \<and> (\<forall>f \<in> set fs. length (Payload f) \<le> 65536)
      \<and> Type (hd fs) = ft
      \<and> (\<forall>f \<in> set (tl fs). Type f = TypeBodyChunk)
      \<and> (\<forall>f \<in> set fs. StreamID f = sid)
      \<and> concat (map Payload fs) = p
      \<and> (length p = 200000 \<longrightarrow> 4 \<le> length fs))
   \<and> (let rs = response_frames sid p in
      rs \<noteq> []
      \<and> (\<forall>f \<in> set rs. length (Payload f) \<le> 65536)
      \<and> Type (hd rs) = TypeHTTPResponse
      \<and> (\<forall>f \<in> set (tl rs). Type f = TypeBodyChunk)
      \<and> (\<forall>f \<in> set rs. StreamID f = sid)
      \<and> concat (map Payload rs) = p
      \<and> (length p = 200000 \<longrightarrow> 4 \<le> length rs))"
  using chunk_payload_props [of sid ft p] chunk_payload_props [of sid TypeHTTPResponse p]
  unfolding response_frames_eq Let_def by blast

theorem payload_fragmentation_witness:
  "length (replicate 200000 (0 :: byte)) = 200000
   \<and> (let fs = chunk_payload 7 TypeHTTPRequest (replicate 200000 0) in
      fs \<noteq> []
      \<and> (\<forall>f \<in> set fs. length (Payload f) \<le> 65536)
      \<and> Type (hd fs) = TypeHTTPRequest
      \<and> (\<forall>f \<in> set (tl fs). Type f = TypeBodyChunk)
      \<and> (\<forall>f \<in> set fs. StreamID f = 7)
      \<and> concat (map Payload fs) = replicate 200000 0
      \<and> 4 \<le> length fs)
   \<and> (let rs = response_frames 7 (replicate 200000 0) in
      rs \<noteq> []
      \<and> (\<forall>f \<in> set rs. length (Payload f) \<le> 65536)
      \<and> Type (hd rs) = TypeHTTPResponse
      \<and> (\<forall>f \<in> set (tl rs). Type f = TypeBodyChunk)
      \<and> (\<forall>f \<in> set rs. StreamID f = 7)
      \<and> concat (map Payload rs) = replicate 200000 0
      \<and> 4 \<le> length rs)"
proof -
  have l: "length (replicate 200000 (0 :: byte)) = 200000"
    by (rule length_replicate)
  show ?thesis
    using payload_fragmentation [of 7 TypeHTTPRequest "replicate 200000 0"]
    unfolding l Let_def by blast
qed

lemma chunk_payload_length:
  "length (chunk_payload sid ft p) =
     (if length p \<le> MaxPayloadSize then 1
      else (length p + (MaxPayloadSize - 1)) div MaxPayloadSize)"
  by (simp add: chunk_payload_def chunk_loop_length)

lemma chunk_payload_70000:
  "length (chunk_payload sid ft (replicate 70000 x)) = 2"
  by (simp add: chunk_payload_length MaxPayloadSize_def)


section \<open>Agent pool: round robin\<close>

lemma residue_block:
  assumes "i < N"
  shows "length (filter (\<lambda>j. j mod N = i) [b..<b + N]) = 1"
proof (induction b)
  case 0
  have "filter (\<lambda>j. j mod N = i) [0..<N] = filter (\<lambda>j. j = i) [0..<N]"
    by (rule filter_cong) auto
  also have "length \<dots> = card ({j. j = i} \<inter> set [0..<N])"
    by (rule distinct_length_filter) simp
  also have "{j. j = i} \<inter> set [0..<N] = {i}"
    using assms by auto
  finally show ?case by simp
next
  case (Suc b)
  have pos: "0 < N" using assms by simp
  have l: "[b..<b + N] = b # [Suc b..<b + N]"
    using pos by (simp add: upt_conv_Cons)
  have r: "[Suc b..<Suc b + N] = [Suc b..<b + N] @ [b + N]"
    using pos by simp
  have m: "(b + N) mod N = b mod N" by simp
  from Suc have "length (filter (\<lambda>j. j mod N = i) (b # [Suc b..<b + N])) = 1"
    by (simp only: l)
  then show ?case
    unfolding r by (simp add: m split: if_splits)
qed

lemma residue_count:
  assumes "i < N"
  shows "length (filter (\<lambda>j. j mod N = i) [b..<b + N * K]) = K"
proof (induction K)
  case 0
  show ?case by simp
next
  case (Suc K)
  have e: "b + N * Suc K = (b + N * K) + N" by simp
  have "[b..<(b + N * K) + N] = [b..<b + N * K] @ [b + N * K..<(b + N * K) + N]"
    by (rule upt_add_eq_append) simp
  then show ?case
    unfolding e using Suc residue_block [OF assms, of "b + N * K"]
    by (simp only: filter_append length_append)
qed

lemma Get_nonempty:
  assumes "tunnels p \<noteq> []" and "length (tunnels p) \<le> 2 ^ 64"
  shows "Get p = (Inr (tunnels p ! (unat (counter p + 1) mod length (tunnels p))),
                  p\<lparr>counter := counter p + 1\<rparr>)"
proof (cases "length (tunnels p) < 2 ^ 64")
  case True
  then have "unat (of_nat (length (tunnels p)) :: 64 word) = length (tunnels p)"
    by (simp add: unat_of_nat)
  then show ?thesis
    using assms(1) by (simp add: Get_def Let_def unat_mod)
next
  case False
  with assms(2) have l: "length (tunnels p) = 2 ^ 64" by simp
  have z: "(of_nat (2 ^ 64) :: 64 word) = 0" by simp
  have "unat (counter p + 1) < 2 ^ 64"
    using unsigned_less [of "counter p + 1", where 'a = nat] by simp
  then have m: "unat (counter p + 1) mod 2 ^ 64 = unat (counter p + 1)" by simp
  show ?thesis
    using assms(1) m unfolding Get_def Let_def l z by simp
qed

text \<open>The results of \<open>n\<close> calls, for a counter that holds \<open>a\<close> modulo \<open>2 ^ 64\<close>: call number
  \<open>j\<close> returns the link at position \<open>((a + j) mod 2 ^ 64) mod N\<close>.\<close>

lemma Get_calls_results:
  assumes "tunnels p \<noteq> []" and "length (tunnels p) \<le> 2 ^ 64"
    and "unat (counter p) = a mod 2 ^ 64"
  shows "\<exists>p'. Get_calls n p =
           (map (\<lambda>j. Inr (tunnels p ! (j mod 2 ^ 64 mod length (tunnels p))))
              [Suc a..<Suc a + n], p')
           \<and> tunnels p' = tunnels p \<and> unat (counter p') = (a + n) mod 2 ^ 64"
  using assms
proof (induction n arbitrary: p a)
  case 0
  then show ?case by simp
next
  case (Suc n)
  let ?q = "p\<lparr>counter := counter p + 1\<rparr>"
  let ?f = "\<lambda>j. Inr (tunnels p ! (j mod 2 ^ 64 mod length (tunnels p))) :: pool_error + 'a"
  have "unat (counter p + 1) = (unat (counter p) + 1) mod 2 ^ 64"
    by (simp add: unat_word_ariths)
  also have "\<dots> = Suc (a mod 2 ^ 64) mod 2 ^ 64"
    by (simp add: Suc.prems(3))
  also have "\<dots> = Suc a mod 2 ^ 64"
    by (rule mod_Suc_eq)
  finally have u: "unat (counter p + 1) = Suc a mod 2 ^ 64" .
  have g: "Get p = (?f (Suc a), ?q)"
    using Get_nonempty [OF Suc.prems(1,2)] by (simp only: u)
  have "tunnels ?q \<noteq> []" "length (tunnels ?q) \<le> 2 ^ 64"
    "unat (counter ?q) = Suc a mod 2 ^ 64"
    using Suc.prems(1,2) u by simp_all
  from Suc.IH [OF this]
  obtain p' where ih: "Get_calls n ?q = (map ?f [Suc (Suc a)..<Suc (Suc a) + n], p')"
    and t: "tunnels p' = tunnels p" and c: "unat (counter p') = (Suc a + n) mod 2 ^ 64"
    by auto
  have l: "[Suc a..<Suc a + Suc n] = Suc a # [Suc (Suc a)..<Suc (Suc a) + n]"
    by (subst upt_conv_Cons) simp_all
  have "Get_calls (Suc n) p = (?f (Suc a) # map ?f [Suc (Suc a)..<Suc (Suc a) + n], p')"
    by (simp only: Get_calls.simps g ih prod.case)
  then have "Get_calls (Suc n) p = (map ?f [Suc a..<Suc a + Suc n], p')"
    unfolding l by (simp only: list.map)
  moreover have "unat (counter p') = (a + Suc n) mod 2 ^ 64"
    using c by simp
  ultimately show ?case using t by blast
qed

lemma foldl_Add:
  "tunnels (foldl Add p ts) = tunnels p @ ts \<and> counter (foldl Add p ts) = counter p"
  by (induction ts arbitrary: p) (simp_all add: Add_def)

lemma count_list_map_nth:
  assumes "distinct ts" and "i < length ts" and "0 < length ts"
  shows "count_list (map (\<lambda>j. ts ! (j mod length ts)) js) (ts ! i)
         = length (filter (\<lambda>j. j mod length ts = i) js)"
proof (induction js)
  case Nil
  show ?case by simp
next
  case (Cons j js)
  have "j mod length ts < length ts" using assms(3) by simp
  then have "(ts ! (j mod length ts) = ts ! i) = (j mod length ts = i)"
    using assms(1,2) by (simp add: nth_eq_iff_index_eq)
  then show ?case using Cons by simp
qed

text \<open>Claim C8. Take a new pool, add \<open>N \<ge> 1\<close> distinct links in order, and let any number
  \<open>m\<close> of calls of \<open>Get\<close> go by. The next \<open>N * K\<close> calls all succeed, and they return each
  link exactly \<open>K\<close> times. The counter counts the calls modulo \<open>2 ^ 64\<close>, so this is stated
  for the calls a run can make: fewer than \<open>2 ^ 64\<close> in all; when \<open>N\<close> divides \<open>2 ^ 64\<close>
  it holds without that bound. \<open>Get\<close> on a pool with no links fails with the no-agents
  error and leaves the pool as it was.\<close>

theorem pool_round_robin:
  assumes "distinct ts" and "1 \<le> length ts"
    and "m + length ts * K < 2 ^ 64 \<or> length ts dvd 2 ^ 64"
  shows "(\<exists>rs p'. Get_calls (length ts * K) (snd (Get_calls m (foldl Add NewPool ts)))
                     = (map Inr rs, p')
            \<and> (\<forall>t \<in> set ts. count_list rs t = K))
         \<and> Get (q\<lparr>tunnels := []\<rparr>) = (Inl NoAgents, q\<lparr>tunnels := []\<rparr>)"
proof
  let ?N = "length ts"
  let ?p0 = "foldl Add NewPool ts :: 'a Pool"
  let ?rs = "map (\<lambda>j. ts ! (j mod ?N)) [Suc m..<Suc m + ?N * K]"
  have pos: "0 < ?N" using assms(2) by (cases ts) simp_all
  show "Get (q\<lparr>tunnels := []\<rparr>) = (Inl NoAgents, q\<lparr>tunnels := []\<rparr>)"
    by (simp add: Get_def)
  show "\<exists>rs p'. Get_calls (?N * K) (snd (Get_calls m ?p0)) = (map Inr rs, p')
            \<and> (\<forall>t \<in> set ts. count_list rs t = K)"
  proof (cases "K = 0")
    case True
    have "Get_calls (?N * K) (snd (Get_calls m ?p0)) = (map Inr [], snd (Get_calls m ?p0))"
      using True by simp
    moreover have "\<forall>t \<in> set ts. count_list [] t = K"
      using True by simp
    ultimately show ?thesis by blast
  next
    case False
    have le: "?N \<le> 2 ^ 64"
    proof (rule disjE [OF assms(3)])
      assume b: "m + ?N * K < 2 ^ 64"
      have "?N \<le> ?N * K" using False by simp
      with b show ?thesis by linarith
    next
      assume "?N dvd 2 ^ 64"
      then show ?thesis by (rule dvd_imp_le) simp
    qed
    have t0: "tunnels ?p0 = ts" and c0: "counter ?p0 = 0"
      using foldl_Add [of NewPool ts] by (simp_all add: NewPool_def)
    have "tunnels ?p0 \<noteq> []" "length (tunnels ?p0) \<le> 2 ^ 64"
      "unat (counter ?p0) = 0 mod 2 ^ 64"
      using pos le by (simp_all add: t0 c0)
    from Get_calls_results [OF this, of m]
    obtain p1 where "Get_calls m ?p0 = (map (\<lambda>j. Inr (tunnels ?p0 ! (j mod 2 ^ 64 mod
          length (tunnels ?p0)))) [Suc 0..<Suc 0 + m], p1)"
      and t1: "tunnels p1 = ts" and c1: "unat (counter p1) = m mod 2 ^ 64"
      by (auto simp add: t0)
    then have s1: "snd (Get_calls m ?p0) = p1" by simp
    have "tunnels p1 \<noteq> []" "length (tunnels p1) \<le> 2 ^ 64"
      using pos le by (simp_all add: t1)
    from Get_calls_results [OF this c1, of "?N * K"]
    obtain p' where g: "Get_calls (?N * K) p1 =
         (map (\<lambda>j. Inr (ts ! (j mod 2 ^ 64 mod ?N))) [Suc m..<Suc m + ?N * K], p')"
      by (auto simp add: t1)
    have e: "ts ! (j mod 2 ^ 64 mod ?N) = ts ! (j mod ?N)"
      if "j \<in> set [Suc m..<Suc m + ?N * K]" for j
    proof (rule disjE [OF assms(3)])
      assume b: "m + ?N * K < 2 ^ 64"
      from that have "Suc m \<le> j \<and> j < Suc m + ?N * K"
        unfolding set_upt atLeastLessThan_iff .
      with b have "j < 2 ^ 64" by linarith
      then show ?thesis by simp
    next
      assume "?N dvd 2 ^ 64"
      then show ?thesis by (simp add: mod_mod_cancel)
    qed
    have "map (\<lambda>j. Inr (ts ! (j mod 2 ^ 64 mod ?N)) :: pool_error + 'a)
            [Suc m..<Suc m + ?N * K]
          = map (\<lambda>j. Inr (ts ! (j mod ?N))) [Suc m..<Suc m + ?N * K]"
      by (rule map_cong [OF refl]) (simp only: e)
    also have "\<dots> = map Inr ?rs"
      by (simp only: map_map comp_def)
    finally have g': "Get_calls (?N * K) (snd (Get_calls m ?p0)) = (map Inr ?rs, p')"
      using g s1 by simp
    have "count_list ?rs t = K" if "t \<in> set ts" for t
    proof -
      from that obtain i where i: "i < ?N" "t = ts ! i"
        by (auto simp add: in_set_conv_nth)
      show ?thesis
        unfolding i(2)
        by (simp only: count_list_map_nth [OF assms(1) i(1) pos] residue_count [OF i(1)])
    qed
    with g' show ?thesis by blast
  qed
qed

theorem pool_round_robin_witness:
  "distinct [''a'', ''b'', ''c'']
   \<and> 1 \<le> length [''a'', ''b'', ''c'']
   \<and> 4 + length [''a'', ''b'', ''c''] * 2 < (2 :: nat) ^ 64
   \<and> (\<exists>rs p'. Get_calls (length [''a'', ''b'', ''c''] * 2)
                  (snd (Get_calls 4 (foldl Add NewPool [''a'', ''b'', ''c''])))
                = (map Inr rs, p')
            \<and> (\<forall>t \<in> set [''a'', ''b'', ''c'']. count_list rs t = 2))
   \<and> Get \<lparr>tunnels = ([] :: string list), counter = 9\<rparr>
       = (Inl NoAgents, \<lparr>tunnels = [], counter = 9\<rparr>)"
proof -
  let ?ts = "[''a'', ''b'', ''c'']"
  have a: "distinct ?ts" by simp
  have b: "1 \<le> length ?ts" by simp
  have c: "4 + length ?ts * 2 < (2 :: nat) ^ 64" by simp
  then have c': "4 + length ?ts * 2 < (2 :: nat) ^ 64 \<or> length ?ts dvd 2 ^ 64" by (rule disjI1)
  have d: "\<lparr>tunnels = [''x''], counter = 9 :: 64 word\<rparr>\<lparr>tunnels := []\<rparr>
           = \<lparr>tunnels = [], counter = 9\<rparr>" by simp
  show ?thesis
    using a b c pool_round_robin [OF a b c', of "\<lparr>tunnels = [''x''], counter = 9\<rparr>"]
    unfolding d by blast
qed


section \<open>Relay request handler: collecting the response, send failures, timeout\<close>

lemma collect_response_prefix:
  assumes "\<forall>f \<in> set fs. Type f \<noteq> TypeStreamClose"
  shows "collect_response um (map Recv fs @ es) data
         = collect_response um es (data @ response_bytes fs)"
  using assms
proof (induction fs arbitrary: data)
  case Nil
  show ?case by simp
next
  case (Cons f fs)
  then show ?case by simp
qed

text \<open>Claim C9, as amended. Let the collector receive frames, none of them a
  \<open>TypeStreamClose\<close>, and then a terminal event. If the terminal event is a
  \<open>TypeStreamClose\<close> frame: bytes that deserialise to a tunnelled response with a status
  code from 100 to 999 have their status code, headers and body written; bytes that do
  not deserialise are answered with 502 \<open>invalid response from backend\<close>; with nothing
  accumulated the answer is 502 \<open>empty response from backend\<close>. If the terminal event is
  the closing of the channel, the answer is 502 \<open>tunnel closed\<close> when nothing was
  accumulated, and otherwise the accumulated bytes are treated just as after a
  \<open>TypeStreamClose\<close>.\<close>

theorem response_collection_terminals:
  assumes "\<forall>f \<in> set fs. Type f \<noteq> TypeStreamClose"
    and "response_bytes fs \<noteq> []"
    and "json_unmarshal (response_bytes fs) = Inr resp"
    and "100 \<le> StatusCode resp" and "StatusCode resp \<le> 999"
    and "\<forall>f \<in> set gs. Type f \<noteq> TypeStreamClose"
    and "response_bytes gs = []"
    and "\<forall>f \<in> set hs. Type f \<noteq> TypeStreamClose"
    and "response_bytes hs \<noteq> []"
    and "json_unmarshal (response_bytes hs) = Inl err"
  shows "collect_response json_unmarshal
           (map Recv fs @ Recv \<lparr>Type = TypeStreamClose, StreamID = sid, Payload = pl\<rparr> # es) []
           = Some (Written (StatusCode resp) (Headers resp) (Body resp), [])
         \<and> collect_response json_unmarshal
           (map Recv hs @ Recv \<lparr>Type = TypeStreamClose, StreamID = sid, Payload = pl\<rparr> # es) []
           = Some (HttpError ''invalid response from backend'' 502,
                   [''failed to unmarshal response''])
         \<and> collect_response json_unmarshal
           (map Recv gs @ Recv \<lparr>Type = TypeStreamClose, StreamID = sid, Payload = pl\<rparr> # es) []
           = Some (HttpError ''empty response from backend'' 502, [])
         \<and> collect_response json_unmarshal (map Recv gs @ ChanClosed # es) []
           = Some (HttpError ''tunnel closed'' 502, [])
         \<and> collect_response json_unmarshal (map Recv fs @ ChanClosed # es) []
           = Some (Written (StatusCode resp) (Headers resp) (Body resp), [])
         \<and> collect_response json_unmarshal (map Recv hs @ ChanClosed # es) []
           = Some (HttpError ''invalid response from backend'' 502,
                   [''failed to unmarshal response''])"
proof -
  have w: "write_response json_unmarshal (response_bytes fs)
           = (Written (StatusCode resp) (Headers resp) (Body resp), [])"
    using assms(2,3,4,5) by (simp add: write_response_def)
  have 1: "collect_response json_unmarshal
           (map Recv fs @ Recv \<lparr>Type = TypeStreamClose, StreamID = sid, Payload = pl\<rparr> # es) []
         = Some (Written (StatusCode resp) (Headers resp) (Body resp), [])"
    using w by (simp add: collect_response_prefix [OF assms(1)] TypeStreamClose_def
        TypeHTTPResponse_def TypeBodyChunk_def)
  have 2: "collect_response json_unmarshal
           (map Recv gs @ Recv \<lparr>Type = TypeStreamClose, StreamID = sid, Payload = pl\<rparr> # es) []
         = Some (HttpError ''empty response from backend'' 502, [])"
    using assms(7) by (simp add: collect_response_prefix [OF assms(6)] TypeStreamClose_def
        TypeHTTPResponse_def TypeBodyChunk_def write_response_def)
  have 3: "collect_response json_unmarshal (map Recv gs @ ChanClosed # es) []
         = Some (HttpError ''tunnel closed'' 502, [])"
    using assms(7) by (simp add: collect_response_prefix [OF assms(6)])
  have 4: "collect_response json_unmarshal (map Recv fs @ ChanClosed # es) []
         = Some (Written (StatusCode resp) (Headers resp) (Body resp), [])"
    using assms(2) w by (simp add: collect_response_prefix [OF assms(1)])
  have 5: "collect_response json_unmarshal
           (map Recv hs @ Recv \<lparr>Type = TypeStreamClose, StreamID = sid, Payload = pl\<rparr> # es) []
         = Some (HttpError ''invalid response from backend'' 502,
                 [''failed to unmarshal response''])"
    using assms(9,10) by (simp add: collect_response_prefix [OF assms(8)] TypeStreamClose_def
        TypeHTTPResponse_def TypeBodyChunk_def write_response_def)
  have 6: "collect_response json_unmarshal (map Recv hs @ ChanClosed # es) []
         = Some (HttpError ''invalid response from backend'' 502,
                 [''failed to unmarshal response''])"
    using assms(9,10) by (simp add: collect_response_prefix [OF assms(8)] write_response_def)
  from 1 2 3 4 5 6 show ?thesis by blast
qed

theorem response_collection_terminals_witness:
  "response_bytes [\<lparr>Type = TypeHTTPResponse, StreamID = 7, Payload = [1, 2]\<rparr>,
                 \<lparr>Type = TypeBodyChunk, StreamID = 7, Payload = [3]\<rparr>] = [1, 2, 3]
   \<and> response_bytes [\<lparr>Type = TypeHTTPResponse, StreamID = 7, Payload = []\<rparr>] = []
   \<and> response_bytes [\<lparr>Type = TypeHTTPResponse, StreamID = 7, Payload = [120]\<rparr>] = [120]
   \<and> collect_response
        (\<lambda>d. if d = [120] then Inl ''invalid character''
              else Inr \<lparr>StatusCode = 200, Headers = Map.empty, Body = d\<rparr>)
        [Recv \<lparr>Type = TypeHTTPResponse, StreamID = 7, Payload = [1, 2]\<rparr>,
         Recv \<lparr>Type = TypeBodyChunk, StreamID = 7, Payload = [3]\<rparr>,
         Recv \<lparr>Type = TypeStreamClose, StreamID = 7, Payload = []\<rparr>] []
       = Some (Written 200 Map.empty [1, 2, 3], [])
   \<and> collect_response
        (\<lambda>d. if d = [120] then Inl ''invalid character''
              else Inr \<lparr>StatusCode = 200, Headers = Map.empty, Body = d\<rparr>)
        [Recv \<lparr>Type = TypeHTTPResponse, StreamID = 7, Payload = [120]\<rparr>,
         Recv \<lparr>Type = TypeStreamClose, StreamID = 7, Payload = []\<rparr>] []
       = Some (HttpError ''invalid response from backend'' 502,
               [''failed to unmarshal response''])
   \<and> collect_response
        (\<lambda>d. if d = [120] then Inl ''invalid character''
              else Inr \<lparr>StatusCode = 200, Headers = Map.empty, Body = d\<rparr>)
        [Recv \<lparr>Type = TypeHTTPResponse, StreamID = 7, Payload = []\<rparr>,
         Recv \<lparr>Type = TypeStreamClose, StreamID = 7, Payload = []\<rparr>] []
       = Some (HttpError ''empty response from backend'' 502, [])
   \<and> collect_response
        (\<lambda>d. if d = [120] then Inl ''invalid character''
              else Inr \<lparr>StatusCode = 200, Headers = Map.empty, Body = d\<rparr>)
        [Recv \<lparr>Type = TypeHTTPResponse, StreamID = 7, Payload = []\<rparr>, ChanClosed] []
       = Some (HttpError ''tunnel closed'' 502, [])
   \<and> collect_response
        (\<lambda>d. if d = [120] then Inl ''invalid character''
              else Inr \<lparr>StatusCode = 200, Headers = Map.empty, Body = d\<rparr>)
        [Recv \<lparr>Type = TypeHTTPResponse, StreamID = 7, Payload = [1, 2]\<rparr>,
         Recv \<lparr>Type = TypeBodyChunk, StreamID = 7, Payload = [3]\<rparr>, ChanClosed] []
       = Some (Written 200 Map.empty [1, 2, 3], [])
   \<and> collect_response
        (\<lambda>d. if d = [120] then Inl ''invalid character''
              else Inr \<lparr>StatusCode = 200, Headers = Map.empty, Body = d\<rparr>)
        [Recv \<lparr>Type = TypeHTTPResponse, StreamID = 7, Payload = [120]\<rparr>, ChanClosed] []
       = Some (HttpError ''invalid response from backend'' 502,
               [''failed to unmarshal response''])"
  using response_collection_terminals
    [where fs = "[\<lparr>Type = TypeHTTPResponse, StreamID = 7, Payload = [1, 2]\<rparr>,
          \<lparr>Type = TypeBodyChunk, StreamID = 7, Payload = [3]\<rparr>]"
      and json_unmarshal = "\<lambda>d. if d = [120] then Inl ''invalid character''
              else Inr \<lparr>StatusCode = 200, Headers = Map.empty, Body = d\<rparr>"
      and resp = "\<lparr>StatusCode = 200, Headers = Map.empty, Body = [1, 2, 3]\<rparr>"
      and gs = "[\<lparr>Type = TypeHTTPResponse, StreamID = 7, Payload = []\<rparr>]"
      and hs = "[\<lparr>Type = TypeHTTPResponse, StreamID = 7, Payload = [120]\<rparr>]"
      and err = "''invalid character''" and sid = 7 and pl = "[]" and es = "[]"]
  by (simp add: TypeHTTPResponse_def TypeBodyChunk_def TypeStreamClose_def)

text \<open>The claim as stated fails on two kinds of accumulated bytes. Bytes that do not
  deserialise (here the one byte \<open>x\<close>) are answered with 502
  \<open>invalid response from backend\<close>. Bytes that deserialise to a response without a valid
  status code (\<open>{}\<close> gives status code 0) make \<open>WriteHeader\<close> panic, and neither the status
  code nor the body is written.\<close>

theorem response_collection_counterexample:
  "collect_response (\<lambda>d. Inl ''invalid character'')
        [Recv \<lparr>Type = TypeHTTPResponse, StreamID = 7, Payload = [120]\<rparr>,
         Recv \<lparr>Type = TypeStreamClose, StreamID = 7, Payload = []\<rparr>] []
       = Some (HttpError ''invalid response from backend'' 502,
               [''failed to unmarshal response''])
   \<and> collect_response (\<lambda>d. Inr \<lparr>StatusCode = 0, Headers = Map.empty, Body = []\<rparr>)
        [Recv \<lparr>Type = TypeHTTPResponse, StreamID = 7, Payload = [123, 125]\<rparr>,
         Recv \<lparr>Type = TypeStreamClose, StreamID = 7, Payload = []\<rparr>] []
       = Some (WriteHeaderPanic Map.empty 0, [])"
  by (simp add: write_response_def TypeHTTPResponse_def TypeBodyChunk_def TypeStreamClose_def)

text \<open>Claim C4. The relay-side read loop has no case for \<open>TypePing\<close>: a PING frame falls
  into the default case, which logs \<open>unexpected frame type from agent\<close> and goes on; nothing
  is written to the connection, so no PONG answers it.\<close>

theorem relay_read_loop_drops_ping:
  "read_loop_step sel t \<lparr>Type = TypePing, StreamID = sid, Payload = pl\<rparr>
     = (Continue, t\<lparr>tlog := tlog t @ [''unexpected frame type from agent'']\<rparr>)
   \<and> sent (snd (read_loop_step sel t \<lparr>Type = TypePing, StreamID = sid, Payload = pl\<rparr>)) = sent t"
  by (simp add: read_loop_step_def TypePing_def TypePong_def TypeHTTPResponse_def
        TypeBodyChunk_def TypeStreamClose_def)

lemma WriteFrame_ok:
  "length (Payload f) \<le> MaxPayloadSize \<Longrightarrow> conn_ok t (attempts t) \<Longrightarrow>
   WriteFrame t f = (None, t\<lparr>attempts := Suc (attempts t),
                               sent := sent t @ [encode_header f @ Payload f]\<rparr>)"
  by (simp add: WriteFrame_def MarshalFrame_def)

lemma WriteFrame_fail:
  "length (Payload f) \<le> MaxPayloadSize \<Longrightarrow> \<not> conn_ok t (attempts t) \<Longrightarrow>
   WriteFrame t f = (Some ConnError, t\<lparr>attempts := Suc (attempts t)\<rparr>)"
  by (simp add: WriteFrame_def MarshalFrame_def)

lemma send_rest_ok:
  assumes "\<forall>f \<in> set fs. length (Payload f) \<le> MaxPayloadSize"
    and "\<forall>j < length fs. conn_ok t (attempts t + j)"
  shows "\<exists>t'. send_rest t fs = (None, t') \<and> streams t' = streams t
            \<and> attempts t' = attempts t + length fs \<and> conn_ok t' = conn_ok t"
  using assms
proof (induction fs arbitrary: t)
  case Nil
  show ?case by simp
next
  case (Cons f fs)
  let ?t1 = "t\<lparr>attempts := Suc (attempts t), sent := sent t @ [encode_header f @ Payload f]\<rparr>"
  have c0: "conn_ok t (attempts t)" using Cons.prems(2) by fastforce
  have w: "SendFrame t f = (None, ?t1)"
    using Cons.prems(1) c0 by (simp add: SendFrame_def WriteFrame_ok)
  have "\<forall>j < length fs. conn_ok ?t1 (attempts ?t1 + j)"
    using Cons.prems(2) by fastforce
  with Cons.IH [of ?t1] Cons.prems(1)
  obtain t' where "send_rest ?t1 fs = (None, t')" "streams t' = streams ?t1"
    "attempts t' = attempts ?t1 + length fs" "conn_ok t' = conn_ok ?t1"
    by auto
  then show ?case by (simp add: w)
qed

lemma send_rest_fail:
  assumes "\<forall>f \<in> set fs. length (Payload f) \<le> MaxPayloadSize"
    and "k < length fs" and "\<forall>j < k. conn_ok t (attempts t + j)"
    and "\<not> conn_ok t (attempts t + k)"
  shows "\<exists>t'. send_rest t fs = (Some ConnError, t') \<and> streams t' = streams t"
  using assms
proof (induction fs arbitrary: t k)
  case Nil
  then show ?case by simp
next
  case (Cons f fs)
  show ?case
  proof (cases k)
    case 0
    then show ?thesis
      using Cons.prems by (simp add: SendFrame_def WriteFrame_fail)
  next
    case (Suc k')
    let ?t1 = "t\<lparr>attempts := Suc (attempts t), sent := sent t @ [encode_header f @ Payload f]\<rparr>"
    have c0: "conn_ok t (attempts t)" using Cons.prems(3) Suc by fastforce
    have w: "SendFrame t f = (None, ?t1)"
      using Cons.prems(1) c0 by (simp add: SendFrame_def WriteFrame_ok)
    have a: "\<forall>j < k'. conn_ok ?t1 (attempts ?t1 + j)"
      using Cons.prems(3) Suc by fastforce
    have b: "\<not> conn_ok ?t1 (attempts ?t1 + k')"
      using Cons.prems(4) Suc by simp
    have "k' < length fs" using Cons.prems(2) Suc by simp
    with Cons.IH [of k' ?t1] Cons.prems(1) a b
    obtain t' where "send_rest ?t1 fs = (Some ConnError, t')" "streams t' = streams ?t1"
      by auto
    then show ?thesis by (simp add: w)
  qed
qed

lemma all_less_shift:
  assumes "\<forall>j < Suc k. P (a + j)"
  shows "\<forall>j < k. P (Suc a + j)"
proof (intro allI impI)
  fix j
  assume "j < k"
  then have "Suc j < Suc k" by simp
  with assms have "P (a + Suc j)" by blast
  then show "P (Suc a + j)" by simp
qed

lemma chunk_payload_Cons:
  "\<exists>f0 rest. chunk_payload sid ft p = f0 # rest \<and> StreamID f0 = sid
      \<and> length (Payload f0) \<le> MaxPayloadSize
      \<and> (\<forall>f \<in> set rest. length (Payload f) \<le> MaxPayloadSize)"
proof -
  obtain f0 rest where c: "chunk_payload sid ft p = f0 # rest"
    using chunk_payload_props [of sid ft p] by (cases "chunk_payload sid ft p") auto
  have "\<forall>f \<in> set (f0 # rest). length (Payload f) \<le> 65536 \<and> StreamID f = sid"
    using chunk_payload_props [of sid ft p] unfolding c by blast
  then show ?thesis using c by (simp add: MaxPayloadSize_def)
qed

lemma SendRequest_fail:
  assumes "length (Payload f) \<le> MaxPayloadSize" and "\<not> conn_ok t (attempts t)"
  shows "\<exists>t'. SendRequest t f = (Some ConnError, t') \<and> streams t' (StreamID f) = None"
  using assms by (simp add: SendRequest_def Let_def WriteFrame_fail remove_stream_def)

lemma SendRequest_ok:
  assumes "length (Payload f) \<le> MaxPayloadSize" and "conn_ok t (attempts t)"
  shows "\<exists>t'. SendRequest t f = (None, t') \<and> streams t' = (streams t)(StreamID f \<mapsto> [])
           \<and> attempts t' = Suc (attempts t) \<and> conn_ok t' = conn_ok t"
  using assms by (simp add: SendRequest_def Let_def WriteFrame_ok)

lemma ServeHTTP_first_write_fails:
  assumes g: "Get (pool h) = (Inr tid, q)" and b: "built = Inr req"
    and m: "json_marshal req = Inr payload"
    and k: "\<not> conn_ok (links h tid) (attempts (links h tid))"
  shows "fst (ServeHTTP json_marshal json_unmarshal h built events)
           = Some (HttpError ''tunnel error'' 502)
         \<and> streams (links (snd (ServeHTTP json_marshal json_unmarshal h built events)) tid)
             (ucast (stream_counter h + 1)) = None"
proof -
  let ?sid = "ucast (stream_counter h + 1) :: 32 word"
  obtain f0 rest where c: "chunk_payload ?sid TypeHTTPRequest payload = f0 # rest"
    and s: "StreamID f0 = ?sid" and l: "length (Payload f0) \<le> MaxPayloadSize"
    using chunk_payload_Cons [of ?sid TypeHTTPRequest payload] by blast
  obtain t1 where r: "SendRequest (links h tid) f0 = (Some ConnError, t1)"
    and n: "streams t1 ?sid = None"
    using SendRequest_fail [OF l k] s by auto
  show ?thesis
    by (simp add: ServeHTTP_def g b m c r n Let_def)
qed

lemma ServeHTTP_chunk_write_fails:
  assumes g: "Get (pool h) = (Inr tid, q)" and b: "built = Inr req"
    and m: "json_marshal req = Inr payload"
    and k: "0 < k" "k < length (chunk_payload (ucast (stream_counter h + 1)) TypeHTTPRequest payload)"
    and ok: "\<forall>j < k. conn_ok (links h tid) (attempts (links h tid) + j)"
    and bad: "\<not> conn_ok (links h tid) (attempts (links h tid) + k)"
  shows "fst (ServeHTTP json_marshal json_unmarshal h built events)
           = Some (HttpError ''tunnel error'' 502)
         \<and> streams (links (snd (ServeHTTP json_marshal json_unmarshal h built events)) tid)
             (ucast (stream_counter h + 1)) = Some []"
proof -
  let ?sid = "ucast (stream_counter h + 1) :: 32 word"
  let ?t = "links h tid"
  obtain f0 rest where c: "chunk_payload ?sid TypeHTTPRequest payload = f0 # rest"
    and s: "StreamID f0 = ?sid" and l: "length (Payload f0) \<le> MaxPayloadSize"
    and lr: "\<forall>f \<in> set rest. length (Payload f) \<le> MaxPayloadSize"
    using chunk_payload_Cons [of ?sid TypeHTTPRequest payload] by blast
  have c0: "conn_ok ?t (attempts ?t)" using ok k(1) by fastforce
  obtain t1 where r: "SendRequest ?t f0 = (None, t1)"
    and a1: "attempts t1 = Suc (attempts ?t)" and o1: "conn_ok t1 = conn_ok ?t"
    and s1: "streams t1 = (streams ?t)(?sid \<mapsto> [])"
    using SendRequest_ok [OF l c0] s by auto
  obtain k' where k': "k = Suc k'" using k(1) by (cases k) auto
  have "k' < length rest" using k(2) c k' by simp
  moreover have "\<forall>j < k'. conn_ok t1 (attempts t1 + j)"
    using all_less_shift [of k' "conn_ok ?t" "attempts ?t"] ok k' by (simp only: a1 o1)
  moreover have "\<not> conn_ok t1 (attempts t1 + k')"
    using bad k' by (simp add: a1 o1)
  ultimately obtain t2 where r2: "send_rest t1 rest = (Some ConnError, t2)"
    and s2: "streams t2 = streams t1"
    using send_rest_fail [OF lr, of k' t1] by blast
  show ?thesis
    by (simp add: ServeHTTP_def g b m c r r2 Let_def s2 s1)
qed

lemma ServeHTTP_frames_sent:
  assumes g: "Get (pool h) = (Inr tid, q)" and b: "built = Inr req"
    and m: "json_marshal req = Inr payload"
    and ok: "\<forall>j < length (chunk_payload (ucast (stream_counter h + 1)) TypeHTTPRequest payload).
               conn_ok (links h tid) (attempts (links h tid) + j)"
  shows "\<exists>t2. attempts t2 = attempts (links h tid)
                 + length (chunk_payload (ucast (stream_counter h + 1)) TypeHTTPRequest payload)
           \<and> conn_ok t2 = conn_ok (links h tid)
           \<and> streams t2 = (streams (links h tid))(ucast (stream_counter h + 1) \<mapsto> [])
           \<and> ServeHTTP json_marshal json_unmarshal h built events =
               (let (err3, t3) = SendFrame t2
                      \<lparr>Type = TypeStreamClose, StreamID = ucast (stream_counter h + 1), Payload = []\<rparr>;
                    lg = (if err3 \<noteq> None then [''failed to send stream close''] else []);
                    h2 = h\<lparr>pool := q, stream_counter := stream_counter h + 1,
                           links := (links h)(tid := t3), slog := slog h @ lg\<rparr>
                in case collect_response json_unmarshal events [] of
                     None \<Rightarrow> (None, h2)
                   | Some (out, lg2) \<Rightarrow> (Some out, h2\<lparr>slog := slog h2 @ lg2\<rparr>))"
proof -
  let ?sid = "ucast (stream_counter h + 1) :: 32 word"
  let ?t = "links h tid"
  obtain f0 rest where c: "chunk_payload ?sid TypeHTTPRequest payload = f0 # rest"
    and s: "StreamID f0 = ?sid" and l: "length (Payload f0) \<le> MaxPayloadSize"
    and lr: "\<forall>f \<in> set rest. length (Payload f) \<le> MaxPayloadSize"
    using chunk_payload_Cons [of ?sid TypeHTTPRequest payload] by blast
  have c0: "conn_ok ?t (attempts ?t)" using ok c by fastforce
  obtain t1 where r: "SendRequest ?t f0 = (None, t1)"
    and a1: "attempts t1 = Suc (attempts ?t)" and o1: "conn_ok t1 = conn_ok ?t"
    and s1: "streams t1 = (streams ?t)(?sid \<mapsto> [])"
    using SendRequest_ok [OF l c0] s by auto
  have "\<forall>j < Suc (length rest). conn_ok ?t (attempts ?t + j)"
    using ok c by simp
  then have "\<forall>j < length rest. conn_ok t1 (attempts t1 + j)"
    using all_less_shift [of "length rest" "conn_ok ?t" "attempts ?t"] by (simp only: a1 o1)
  then obtain t2 where r2: "send_rest t1 rest = (None, t2)" and s2: "streams t2 = streams t1"
    and a2: "attempts t2 = attempts t1 + length rest" and o2: "conn_ok t2 = conn_ok t1"
    using send_rest_ok [OF lr, of t1] by blast
  have "ServeHTTP json_marshal json_unmarshal h built events =
               (let (err3, t3) = SendFrame t2
                      \<lparr>Type = TypeStreamClose, StreamID = ?sid, Payload = []\<rparr>;
                    lg = (if err3 \<noteq> None then [''failed to send stream close''] else []);
                    h2 = h\<lparr>pool := q, stream_counter := stream_counter h + 1,
                           links := (links h)(tid := t3), slog := slog h @ lg\<rparr>
                in case collect_response json_unmarshal events [] of
                     None \<Rightarrow> (None, h2)
                   | Some (out, lg2) \<Rightarrow> (Some out, h2\<lparr>slog := slog h2 @ lg2\<rparr>))"
    by (simp add: ServeHTTP_def g b m c r r2 Let_def)
  then show ?thesis
    using a2 o2 s2 a1 o1 s1 c by auto
qed

text \<open>Claim C3. Let write number \<open>k\<close> of a request be the first one that fails, counting
  the frames of the request from 0 and the closing \<open>TypeStreamClose\<close> frame as number \<open>n\<close>,
  the number of frames. A failure on a frame of the request (\<open>k < n\<close>) is answered with
  502 \<open>tunnel error\<close>. The stream is unregistered only when the failing frame is the first
  one (\<open>k = 0\<close>), by \<open>SendRequest\<close>; after a failure on a later frame or on the closing
  frame (\<open>0 < k\<close>) the stream is still registered when the handler returns. A failure on
  the closing frame (\<open>k = n\<close>) is only logged: the handler answers with what the collector
  returns, not with 502 \<open>tunnel error\<close>.\<close>

theorem relay_send_failure:
  assumes g: "Get (pool h) = (Inr tid, q)" and b: "built = Inr req"
    and m: "json_marshal req = Inr payload"
    and k: "k \<le> length (chunk_payload (ucast (stream_counter h + 1)) TypeHTTPRequest payload)"
    and ok: "\<forall>j < k. conn_ok (links h tid) (attempts (links h tid) + j)"
    and bad: "\<not> conn_ok (links h tid) (attempts (links h tid) + k)"
  shows "(k < length (chunk_payload (ucast (stream_counter h + 1)) TypeHTTPRequest payload) \<longrightarrow>
            fst (ServeHTTP json_marshal json_unmarshal h built events)
              = Some (HttpError ''tunnel error'' 502))
         \<and> (k = 0 \<longrightarrow>
            streams (links (snd (ServeHTTP json_marshal json_unmarshal h built events)) tid)
              (ucast (stream_counter h + 1)) = None)
         \<and> (0 < k \<longrightarrow>
            streams (links (snd (ServeHTTP json_marshal json_unmarshal h built events)) tid)
              (ucast (stream_counter h + 1)) = Some [])
         \<and> (k = length (chunk_payload (ucast (stream_counter h + 1)) TypeHTTPRequest payload) \<longrightarrow>
            fst (ServeHTTP json_marshal json_unmarshal h built events)
              = map_option fst (collect_response json_unmarshal events [])
            \<and> ''failed to send stream close''
                \<in> set (slog (snd (ServeHTTP json_marshal json_unmarshal h built events))))"
proof (intro conjI impI)
  let ?n = "length (chunk_payload (ucast (stream_counter h + 1)) TypeHTTPRequest payload)"
  let ?sid = "ucast (stream_counter h + 1) :: 32 word"
  let ?R = "ServeHTTP json_marshal json_unmarshal h built events"
  note first = ServeHTTP_first_write_fails
      [where json_marshal = json_marshal and req = req and json_unmarshal = json_unmarshal
         and events = events, OF g b m]
  note later = ServeHTTP_chunk_write_fails
      [where json_marshal = json_marshal and req = req and json_unmarshal = json_unmarshal
         and events = events and k = k, OF g b m]
  show "fst ?R = Some (HttpError ''tunnel error'' 502)" if "k < ?n"
  proof (cases "k = 0")
    case True
    then show ?thesis using first bad by simp
  next
    case False
    then show ?thesis using later that ok bad by simp
  qed
  show "streams (links (snd ?R) tid) ?sid = None" if "k = 0"
    using first bad that by simp
  have *: "fst ?R = map_option fst (collect_response json_unmarshal events [])
        \<and> ''failed to send stream close'' \<in> set (slog (snd ?R))
        \<and> streams (links (snd ?R) tid) ?sid = Some []" if kn: "k = ?n"
  proof -
    obtain t2 where a: "attempts t2 = attempts (links h tid) + ?n"
      and o: "conn_ok t2 = conn_ok (links h tid)"
      and st: "streams t2 = (streams (links h tid))(?sid \<mapsto> [])"
      and r: "?R =
               (let (err3, t3) = SendFrame t2
                      \<lparr>Type = TypeStreamClose, StreamID = ?sid, Payload = []\<rparr>;
                    lg = (if err3 \<noteq> None then [''failed to send stream close''] else []);
                    h2 = h\<lparr>pool := q, stream_counter := stream_counter h + 1,
                           links := (links h)(tid := t3), slog := slog h @ lg\<rparr>
                in case collect_response json_unmarshal events [] of
                     None \<Rightarrow> (None, h2)
                   | Some (out, lg2) \<Rightarrow> (Some out, h2\<lparr>slog := slog h2 @ lg2\<rparr>))"
      using ServeHTTP_frames_sent [where json_marshal = json_marshal and req = req
          and json_unmarshal = json_unmarshal and events = events, OF g b m] ok kn by blast
    have "\<not> conn_ok t2 (attempts t2)" using bad kn by (simp add: a o)
    then have f: "SendFrame t2 \<lparr>Type = TypeStreamClose, StreamID = ?sid,
                      Payload = []\<rparr> = (Some ConnError, t2\<lparr>attempts := Suc (attempts t2)\<rparr>)"
      by (simp add: SendFrame_def WriteFrame_fail)
    show ?thesis
      unfolding r f by (simp add: Let_def st split: option.splits)
  qed
  show "fst ?R = map_option fst (collect_response json_unmarshal events [])" if "k = ?n"
    using * that by blast
  show "''failed to send stream close'' \<in> set (slog (snd ?R))" if "k = ?n"
    using * that by blast
  show "streams (links (snd ?R) tid) ?sid = Some []" if "0 < k"
  proof (cases "k = ?n")
    case True
    then show ?thesis using * by blast
  next
    case False
    with k have "k < ?n" by simp
    then show ?thesis using later that ok bad by simp
  qed
qed

text \<open>Claim C2. When every frame of the request and the closing frame are written, and the
  collector receives frames other than \<open>TypeStreamClose\<close> and then the timer, the handler
  answers 504 with \<open>request timed out\<close>. The stream's sink is not removed: it is still in
  the registry of the tunnel when the handler returns.\<close>

theorem relay_timeout_keeps_stream_registered:
  assumes g: "Get (pool h) = (Inr tid, q)" and b: "built = Inr req"
    and m: "json_marshal req = Inr payload"
    and ok: "\<forall>j \<le> length (chunk_payload (ucast (stream_counter h + 1)) TypeHTTPRequest payload).
               conn_ok (links h tid) (attempts (links h tid) + j)"
    and nc: "\<forall>f \<in> set fs. Type f \<noteq> TypeStreamClose"
  shows "fst (ServeHTTP json_marshal json_unmarshal h built (map Recv fs @ TimerFired # es))
           = Some (HttpError ''request timed out'' 504)
         \<and> streams (links (snd (ServeHTTP json_marshal json_unmarshal h built
                                   (map Recv fs @ TimerFired # es))) tid)
             (ucast (stream_counter h + 1)) = Some []"
proof -
  let ?n = "length (chunk_payload (ucast (stream_counter h + 1)) TypeHTTPRequest payload)"
  let ?ev = "map Recv fs @ TimerFired # es"
  let ?R = "ServeHTTP json_marshal json_unmarshal h built ?ev"
  have ok': "\<forall>j < ?n. conn_ok (links h tid) (attempts (links h tid) + j)"
    using ok by simp
  obtain t2 where a: "attempts t2 = attempts (links h tid) + ?n"
    and o: "conn_ok t2 = conn_ok (links h tid)"
    and s: "streams t2 = (streams (links h tid))(ucast (stream_counter h + 1) \<mapsto> [])"
    and r: "?R =
               (let (err3, t3) = SendFrame t2
                      \<lparr>Type = TypeStreamClose, StreamID = ucast (stream_counter h + 1), Payload = []\<rparr>;
                    lg = (if err3 \<noteq> None then [''failed to send stream close''] else []);
                    h2 = h\<lparr>pool := q, stream_counter := stream_counter h + 1,
                           links := (links h)(tid := t3), slog := slog h @ lg\<rparr>
                in case collect_response json_unmarshal ?ev [] of
                     None \<Rightarrow> (None, h2)
                   | Some (out, lg2) \<Rightarrow> (Some out, h2\<lparr>slog := slog h2 @ lg2\<rparr>))"
    using ServeHTTP_frames_sent [where json_marshal = json_marshal and req = req and json_unmarshal = json_unmarshal and events = ?ev, OF g b m ok'] by blast
  have "conn_ok t2 (attempts t2)" using ok by (simp add: a o)
  then have f: "SendFrame t2 \<lparr>Type = TypeStreamClose, StreamID = ucast (stream_counter h + 1),
                    Payload = []\<rparr>
                = (None, t2\<lparr>attempts := Suc (attempts t2),
                     sent := sent t2 @ [encode_header \<lparr>Type = TypeStreamClose,
                        StreamID = ucast (stream_counter h + 1), Payload = []\<rparr> @ []]\<rparr>)"
    using WriteFrame_ok [of "\<lparr>Type = TypeStreamClose, StreamID = ucast (stream_counter h + 1),
                    Payload = []\<rparr>" t2] by (simp add: SendFrame_def)
  have c: "collect_response json_unmarshal ?ev []
           = Some (HttpError ''request timed out'' 504, [''request timed out waiting for response''])"
    by (simp add: collect_response_prefix [OF nc])
  show ?thesis
    unfolding r f c by (simp add: Let_def s)
qed

theorem relay_send_failure_witness:
  "(let t = \<lparr>streams = Map.empty, conn_ok = (\<lambda>i. False), attempts = 0, sent = [],
              tlog = [], tdone = False\<rparr>;
        h = \<lparr>pool = \<lparr>tunnels = [0], counter = 0\<rparr>, links = (\<lambda>i. t), stream_counter = 0,
              slog = []\<rparr>;
        R = ServeHTTP (\<lambda>r. Inr [123, 125]) (\<lambda>d. Inl ''no response'') h
              (Inr \<lparr>Method = ''GET'', URL = ''/hello'', ReqHeaders = Map.empty, ReqBody = []\<rparr>)
              [TimerFired]
    in fst R = Some (HttpError ''tunnel error'' 502) \<and> streams (links (snd R) 0) 1 = None)
   \<and> (let t = \<lparr>streams = Map.empty, conn_ok = (\<lambda>i. i < 1), attempts = 0, sent = [],
              tlog = [], tdone = False\<rparr>;
        h = \<lparr>pool = \<lparr>tunnels = [0], counter = 0\<rparr>, links = (\<lambda>i. t), stream_counter = 0,
              slog = []\<rparr>;
        R = ServeHTTP (\<lambda>r. Inr (replicate 70000 0)) (\<lambda>d. Inl ''no response'') h
              (Inr \<lparr>Method = ''GET'', URL = ''/hello'', ReqHeaders = Map.empty, ReqBody = []\<rparr>)
              [TimerFired]
    in length (chunk_payload 1 TypeHTTPRequest (replicate 70000 0)) = 2
       \<and> fst R = Some (HttpError ''tunnel error'' 502)
       \<and> streams (links (snd R) 0) 1 = Some [])
   \<and> (let t = \<lparr>streams = Map.empty, conn_ok = (\<lambda>i. i < 1), attempts = 0, sent = [],
              tlog = [], tdone = False\<rparr>;
        h = \<lparr>pool = \<lparr>tunnels = [0], counter = 0\<rparr>, links = (\<lambda>i. t), stream_counter = 0,
              slog = []\<rparr>;
        R = ServeHTTP (\<lambda>r. Inr [123, 125]) (\<lambda>d. Inl ''no response'') h
              (Inr \<lparr>Method = ''GET'', URL = ''/hello'', ReqHeaders = Map.empty, ReqBody = []\<rparr>)
              [TimerFired]
    in fst R = Some (HttpError ''request timed out'' 504)
       \<and> ''failed to send stream close'' \<in> set (slog (snd R))
       \<and> streams (links (snd R) 0) 1 = Some [])"
proof -
  let ?req = "\<lparr>Method = ''GET'', URL = ''/hello'', ReqHeaders = Map.empty, ReqBody = []\<rparr>"
  let ?ta = "\<lparr>streams = Map.empty, conn_ok = (\<lambda>i. False), attempts = 0, sent = [],
              tlog = [], tdone = False\<rparr>"
  let ?tb = "\<lparr>streams = Map.empty, conn_ok = (\<lambda>i. i < 1), attempts = 0, sent = [],
              tlog = [], tdone = False\<rparr>"
  let ?ha = "\<lparr>pool = \<lparr>tunnels = [0 :: nat], counter = 0\<rparr>, links = (\<lambda>i. ?ta),
               stream_counter = 0, slog = []\<rparr>"
  let ?hb = "\<lparr>pool = \<lparr>tunnels = [0 :: nat], counter = 0\<rparr>, links = (\<lambda>i. ?tb),
               stream_counter = 0, slog = []\<rparr>"
  have n1: "length (chunk_payload 1 TypeHTTPRequest [123, 125]) = 1"
    by (simp add: chunk_payload_def MaxPayloadSize_def)
  have n2: "length (chunk_payload 1 TypeHTTPRequest (replicate 70000 0)) = 2"
    by (rule chunk_payload_70000)
  have a: "fst (ServeHTTP (\<lambda>r. Inr [123, 125]) (\<lambda>d. Inl ''no response'') ?ha (Inr ?req) [TimerFired])
             = Some (HttpError ''tunnel error'' 502)
           \<and> streams (links (snd (ServeHTTP (\<lambda>r. Inr [123, 125]) (\<lambda>d. Inl ''no response'') ?ha
                 (Inr ?req) [TimerFired])) 0) 1 = None"
    using relay_send_failure [where h = ?ha and tid = 0 and q = "\<lparr>tunnels = [0], counter = 1\<rparr>"
        and built = "Inr ?req" and req = ?req and json_marshal = "\<lambda>r. Inr [123, 125]"
        and payload = "[123, 125]" and k = 0 and json_unmarshal = "\<lambda>d. Inl ''no response''"
        and events = "[TimerFired]"]
    by (simp add: Get_def n1)
  have b: "fst (ServeHTTP (\<lambda>r. Inr (replicate 70000 0)) (\<lambda>d. Inl ''no response'') ?hb (Inr ?req)
                  [TimerFired])
             = Some (HttpError ''tunnel error'' 502)
           \<and> streams (links (snd (ServeHTTP (\<lambda>r. Inr (replicate 70000 0))
                 (\<lambda>d. Inl ''no response'') ?hb (Inr ?req) [TimerFired])) 0) 1 = Some []"
    using relay_send_failure [where h = ?hb and tid = 0 and q = "\<lparr>tunnels = [0], counter = 1\<rparr>"
        and built = "Inr ?req" and req = ?req and json_marshal = "\<lambda>r. Inr (replicate 70000 0)"
        and payload = "replicate 70000 0" and k = 1 and json_unmarshal = "\<lambda>d. Inl ''no response''"
        and events = "[TimerFired]"]
    by (simp add: Get_def n2)
  have c: "fst (ServeHTTP (\<lambda>r. Inr [123, 125]) (\<lambda>d. Inl ''no response'') ?hb (Inr ?req) [TimerFired])
             = Some (HttpError ''request timed out'' 504)
           \<and> ''failed to send stream close''
               \<in> set (slog (snd (ServeHTTP (\<lambda>r. Inr [123, 125]) (\<lambda>d. Inl ''no response'') ?hb
                     (Inr ?req) [TimerFired])))
           \<and> streams (links (snd (ServeHTTP (\<lambda>r. Inr [123, 125]) (\<lambda>d. Inl ''no response'') ?hb
                 (Inr ?req) [TimerFired])) 0) 1 = Some []"
    using relay_send_failure [where h = ?hb and tid = 0 and q = "\<lparr>tunnels = [0], counter = 1\<rparr>"
        and built = "Inr ?req" and req = ?req and json_marshal = "\<lambda>r. Inr [123, 125]"
        and payload = "[123, 125]" and k = 1 and json_unmarshal = "\<lambda>d. Inl ''no response''"
        and events = "[TimerFired]"]
    by (simp add: Get_def n1)
  from a b c n2 show ?thesis by (simp only: Let_def simp_thms)
qed

text \<open>The closing frame evaluated: with the one frame of a small request written and the
  write of \<open>TypeStreamClose\<close> failing, the handler sends no 502; it waits for the response,
  here until the timer fires, and the stream is still registered.\<close>

lemma relay_stream_close_failure_timeout:
  "(let t = \<lparr>streams = Map.empty, conn_ok = (\<lambda>i. i < 1), attempts = 0, sent = [],
              tlog = [], tdone = False\<rparr>;
        h = \<lparr>pool = \<lparr>tunnels = [0], counter = 0\<rparr>, links = (\<lambda>i. t), stream_counter = 0,
              slog = []\<rparr>;
        R = ServeHTTP (\<lambda>r. Inr [123, 125]) (\<lambda>d. Inl ''no response'') h
              (Inr \<lparr>Method = ''GET'', URL = ''/hello'', ReqHeaders = Map.empty, ReqBody = []\<rparr>)
              [TimerFired]
    in fst R = Some (HttpError ''request timed out'' 504)
       \<and> streams (links (snd R) 0) 1 = Some []
       \<and> attempts (links (snd R) 0) = 2 \<and> length (sent (links (snd R) 0)) = 1)"
  by (simp add: ServeHTTP_def Get_def chunk_payload_def MaxPayloadSize_def SendRequest_def
        SendFrame_def WriteFrame_def MarshalFrame_def Let_def)

theorem relay_timeout_keeps_stream_registered_witness:
  "(let t = \<lparr>streams = Map.empty, conn_ok = (\<lambda>i. True), attempts = 0, sent = [],
              tlog = [], tdone = False\<rparr>;
        h = \<lparr>pool = \<lparr>tunnels = [0], counter = 0\<rparr>, links = (\<lambda>i. t), stream_counter = 0,
              slog = []\<rparr>;
        R = ServeHTTP (\<lambda>r. Inr [123, 125]) (\<lambda>d. Inl ''no response'') h
              (Inr \<lparr>Method = ''GET'', URL = ''/slow'', ReqHeaders = Map.empty, ReqBody = []\<rparr>)
              [Recv \<lparr>Type = TypeHTTPResponse, StreamID = 1, Payload = [123]\<rparr>, TimerFired]
    in fst R = Some (HttpError ''request timed out'' 504)
       \<and> streams (links (snd R) 0) 1 = Some [])"
proof -
  let ?req = "\<lparr>Method = ''GET'', URL = ''/slow'', ReqHeaders = Map.empty, ReqBody = []\<rparr>"
  let ?t = "\<lparr>streams = Map.empty, conn_ok = (\<lambda>i. True), attempts = 0, sent = [],
              tlog = [], tdone = False\<rparr>"
  let ?h = "\<lparr>pool = \<lparr>tunnels = [0 :: nat], counter = 0\<rparr>, links = (\<lambda>i. ?t),
               stream_counter = 0, slog = []\<rparr>"
  show ?thesis
    using relay_timeout_keeps_stream_registered
      [where h = ?h and tid = 0 and q = "\<lparr>tunnels = [0], counter = 1\<rparr>"
        and built = "Inr ?req" and req = ?req and json_marshal = "\<lambda>r. Inr [123, 125]"
        and payload = "[123, 125]" and json_unmarshal = "\<lambda>d. Inl ''no response''"
        and fs = "[\<lparr>Type = TypeHTTPResponse, StreamID = 1, Payload = [123]\<rparr>]" and es = "[]"]
    by (simp add: Get_def Let_def TypeHTTPResponse_def TypeStreamClose_def)
qed

section \<open>Token authorization: formatting and parsing the timestamp\<close>

lemma digit_char_props:
  assumes "d < 10"
  shows "is_digit (digit_char d)" and "digit_val (digit_char d) = d"
    and "digit_char d \<noteq> CHR '':''" and "digit_char d \<noteq> CHR ''+''"
    and "digit_char d \<noteq> CHR ''-''"
proof -
  have o: "(of_char (digit_char d) :: nat) = 48 + d"
    using assms by (simp add: digit_char_def)
  show "is_digit (digit_char d)" using assms by (simp add: is_digit_def o)
  show "digit_val (digit_char d) = d" by (simp add: digit_val_def o)
  show "digit_char d \<noteq> CHR '':''"
  proof
    assume "digit_char d = CHR '':''"
    then have "(of_char (digit_char d) :: nat) = 58" by simp
    with o assms show False by simp
  qed
  show "digit_char d \<noteq> CHR ''+''"
  proof
    assume "digit_char d = CHR ''+''"
    then have "(of_char (digit_char d) :: nat) = 43" by simp
    with o show False by simp
  qed
  show "digit_char d \<noteq> CHR ''-''"
  proof
    assume "digit_char d = CHR ''-''"
    then have "(of_char (digit_char d) :: nat) = 45" by simp
    with o show False by simp
  qed
qed

lemma not_digit_colon: "\<not> is_digit (CHR '':'')"
  by (simp add: is_digit_def)

lemma decimal_digits: "c \<in> set (decimal n) \<Longrightarrow> \<exists>d < 10. c = digit_char d"
proof (induction n rule: decimal.induct)
  case (1 n)
  show ?case
  proof (cases "n < 10")
    case True
    with "1.prems" show ?thesis by (subst (asm) decimal.simps) auto
  next
    case False
    have m: "n mod 10 < 10" by simp
    from "1.prems" False have "c \<in> set (decimal (n div 10)) \<or> c = digit_char (n mod 10)"
      by (subst (asm) decimal.simps) auto
    then show ?thesis using "1.IH" [OF False] m by blast
  qed
qed

lemma decimal_nonempty: "decimal n \<noteq> []"
  by (subst decimal.simps) simp

lemma parse_digits_snoc:
  "parse_digits a (xs @ [c]) =
     (case parse_digits a xs of
        Inl err \<Rightarrow> Inl err
      | Inr v \<Rightarrow> if \<not> is_digit c then Inl ErrSyntax
                 else if v * 10 + digit_val c \<ge> 2 ^ 64 then Inl ErrRange
                 else Inr (v * 10 + digit_val c))"
  by (induction xs arbitrary: a) (simp_all add: Let_def)

lemma parse_digits_decimal:
  "n < 2 ^ 64 \<Longrightarrow> parse_digits 0 (decimal n) = Inr n"
proof (induction n rule: decimal.induct)
  case (1 n)
  show ?case
  proof (cases "n < 10")
    case True
    then have "decimal n = [digit_char n]" by (subst decimal.simps) simp
    then show ?thesis using True "1.prems" by (simp add: digit_char_props Let_def)
  next
    case False
    then have d: "decimal n = decimal (n div 10) @ [digit_char (n mod 10)]"
      by (subst decimal.simps) simp
    have "n div 10 < 2 ^ 64" using "1.prems" by (meson div_le_dividend le_less_trans)
    then have ih: "parse_digits 0 (decimal (n div 10)) = Inr (n div 10)"
      using "1.IH" [OF False] by blast
    have m: "n mod 10 < 10" by simp
    have e: "n div 10 * 10 + n mod 10 = n" by simp
    show ?thesis
      unfolding d parse_digits_snoc ih
      using "1.prems" by (simp add: digit_char_props [OF m] e)
  qed
qed

lemma parse_digits_colon:
  "CHR '':'' \<in> set s \<Longrightarrow> \<exists>err. parse_digits a s = Inl err"
proof (induction s arbitrary: a)
  case Nil
  then show ?case by simp
next
  case (Cons c s)
  show ?case
  proof (cases "c = CHR '':''")
    case True
    then show ?thesis by (simp add: not_digit_colon)
  next
    case False
    with Cons.prems have "CHR '':'' \<in> set s" by simp
    from Cons.IH [OF this] show ?thesis by (simp add: Let_def)
  qed
qed

lemma hd_decimal: "\<exists>d < 10. hd (decimal n) = digit_char d"
  using decimal_digits [of "hd (decimal n)" n] decimal_nonempty [of n] by simp

lemma ParseInt_FormatInt:
  assumes "- (2 ^ 63) \<le> x" and "x < 2 ^ 63"
  shows "ParseInt (FormatInt x) = Inr x"
proof (cases "x < 0")
  case True
  let ?n = "nat (- x)"
  have n: "?n \<le> 2 ^ 63" using assms(1) by simp
  then have "?n < 2 ^ 64" by simp
  then have p: "parse_digits 0 (decimal ?n) = Inr ?n" by (rule parse_digits_decimal)
  have "\<not> (?n > 2 ^ 63)" using n by simp
  then show ?thesis
    using True by (simp add: ParseInt_def FormatInt_def decimal_nonempty p)
next
  case False
  let ?n = "nat x"
  have n: "?n < 2 ^ 63" using assms(2) False by simp
  then have "?n < 2 ^ 64" by simp
  then have p: "parse_digits 0 (decimal ?n) = Inr ?n" by (rule parse_digits_decimal)
  obtain d where d: "d < 10" "hd (decimal ?n) = digit_char d"
    using hd_decimal [of ?n] by blast
  have h: "hd (decimal ?n) \<noteq> CHR ''+''" "hd (decimal ?n) \<noteq> CHR ''-''"
    using digit_char_props [OF d(1)] by (simp_all add: d(2))
  have "\<not> (?n \<ge> 2 ^ 63)" using n by simp
  then show ?thesis
    using False by (simp add: ParseInt_def FormatInt_def decimal_nonempty p h)
qed

lemma FormatInt_no_colon: "CHR '':'' \<notin> set (FormatInt x)"
proof
  assume "CHR '':'' \<in> set (FormatInt x)"
  then have "CHR '':'' \<in> set (decimal (nat (- x))) \<or> CHR '':'' \<in> set (decimal (nat x))"
    by (simp add: FormatInt_def split: if_splits)
  then obtain d where "d < 10" "CHR '':'' = digit_char d"
    using decimal_digits by blast
  then show False using digit_char_props(3) [of d] by simp
qed

lemma EncodeToString_no_colon: "CHR '':'' \<notin> set (EncodeToString src)"
proof -
  have t: "CHR '':'' \<notin> set hextable" by (simp add: hextable_def)
  have n: "hextable ! k \<in> set hextable" if "k < 16" for k
    using that by (intro nth_mem) (simp add: hextable_def)
  have "c \<in> set hextable" if "c \<in> set (EncodeToString src)" for c
  proof -
    from that have "\<exists>b :: byte. c = hextable ! (unat b div 16) \<or> c = hextable ! (unat b mod 16)"
      by (auto simp add: EncodeToString_def)
    then obtain b :: byte
      where "c = hextable ! (unat b div 16) \<or> c = hextable ! (unat b mod 16)" by blast
    moreover have "unat b div 16 < 16"
      using unsigned_less [of b, where 'a = nat] by simp
    moreover have "unat b mod 16 < 16" by simp
    ultimately show ?thesis using n by blast
  qed
  with t show ?thesis by blast
qed

lemma SplitN2_colon:
  assumes "CHR '':'' \<notin> set a"
  shows "SplitN2 (a @ CHR '':'' # b) = [a, b]"
proof -
  have p: "\<And>x. x \<in> set a \<Longrightarrow> x \<noteq> CHR '':''" using assms by blast
  have t: "takeWhile (\<lambda>c. c \<noteq> CHR '':'') (a @ CHR '':'' # b) = a"
    using p by simp
  have d: "dropWhile (\<lambda>c. c \<noteq> CHR '':'') (a @ CHR '':'' # b) = CHR '':'' # b"
    using p by simp
  show ?thesis by (simp add: SplitN2_def t d)
qed

lemma SplitN2_no_colon: "CHR '':'' \<notin> set s \<Longrightarrow> SplitN2 s = [s]"
  by (simp add: SplitN2_def)

lemma ParseInt_colon:
  assumes "CHR '':'' \<in> set s"
  shows "\<exists>err. ParseInt s = Inl err"
proof -
  let ?s1 = "if hd s = CHR ''+'' \<or> hd s = CHR ''-'' then tl s else s"
  from assms have ne: "s \<noteq> []" by auto
  then obtain c cs where s: "s = c # cs" by (cases s) auto
  have "CHR '':'' \<in> set ?s1" using assms s by auto
  then obtain err where "parse_digits 0 ?s1 = Inl err"
    using parse_digits_colon by blast
  then show ?thesis using ne by (simp add: ParseInt_def Let_def)
qed

lemma ParseInt_range:
  assumes "ParseInt s = Inr v"
  shows "- (2 ^ 63) \<le> v \<and> v < 2 ^ 63"
  using assms
  by (auto simp add: ParseInt_def Let_def split: if_splits sum.splits)

lemma sint_word_of_int_64:
  assumes "- (2 ^ 63) \<le> v" and "v < 2 ^ 63"
  shows "sint (word_of_int v :: 64 word) = v"
  using assms by (simp add: sint_sbintrunc' signed_take_bit_int_eq_self)

lemma float64_of_int_exact:
  assumes "\<bar>x\<bar> < 2 ^ 53"
  shows "float64_of_int x = x"
proof -
  have "float_exp \<bar>x\<bar> = 0" using assms by (subst float_exp.simps) simp
  then show ?thesis by (simp add: float64_of_int_def)
qed

lemma token_age:
  fixes now :: "64 word"
  assumes r: "- (2 ^ 63) \<le> tsv" "tsv < 2 ^ 63"
    and a: "\<bar>sint now - tsv\<bar> \<le> 9223372036"
  shows "sint (int64_of_float oob \<bar>float64_of_int (sint (now - word_of_int tsv))\<bar> * Second)
         = \<bar>sint now - tsv\<bar> * 1000000000"
proof -
  let ?d = "sint now - tsv"
  have "now - word_of_int tsv = (word_of_int (sint now) - word_of_int tsv :: 64 word)"
    by simp
  also have "\<dots> = word_of_int ?d" by simp
  finally have "sint (now - word_of_int tsv) = sint (word_of_int ?d :: 64 word)" by simp
  also have "\<dots> = ?d" using a by (intro sint_word_of_int_64) simp_all
  finally have d: "sint (now - word_of_int tsv) = ?d" .
  have f: "float64_of_int ?d = ?d" using a by (intro float64_of_int_exact) simp
  have lo: "- (2 ^ 63) \<le> \<bar>?d\<bar>" by simp
  have hi: "\<bar>?d\<bar> < 2 ^ 63" using a by simp
  have i: "int64_of_float oob \<bar>?d\<bar> = word_of_int \<bar>?d\<bar>"
    by (simp only: int64_of_float_def lo hi simp_thms if_True)
  have m: "word_of_int \<bar>?d\<bar> * Second = (word_of_int (\<bar>?d\<bar> * 1000000000) :: 64 word)"
    by (simp add: Second_def)
  have "0 \<le> \<bar>?d\<bar> * 1000000000" by simp
  then have lo': "- (2 ^ 63) \<le> \<bar>?d\<bar> * 1000000000"
    by (rule order_trans [rotated]) simp
  have "\<bar>?d\<bar> * 1000000000 \<le> 9223372036 * 1000000000"
    using a by (intro mult_right_mono) simp_all
  then have hi': "\<bar>?d\<bar> * 1000000000 < 2 ^ 63" by simp
  have s: "sint (word_of_int (\<bar>?d\<bar> * 1000000000) :: 64 word) = \<bar>?d\<bar> * 1000000000"
    using lo' hi' by (rule sint_word_of_int_64)
  show ?thesis unfolding d f i m s by (rule refl)
qed

lemma sint_token_validity: "sint token_validity = 300000000000"
  by (simp add: token_validity_def Second_def)

lemma ValidateToken_parts:
  assumes "CHR '':'' \<notin> set mac" and "ParseInt tsStr = Inr tsv"
  shows "ValidateToken H oob now secret (mac @ CHR '':'' # tsStr) =
           (if sint (int64_of_float oob \<bar>float64_of_int (sint (now - word_of_int tsv))\<bar> * Second)
                 > sint token_validity
            then Inl Expired
            else if mac \<noteq> compute_hmac H secret tsStr then Inl InvalidSignature
            else Inr ())"
  by (simp add: ValidateToken_def SplitN2_colon [OF assms(1)] assms(2) Let_def)

lemma ValidateToken_fresh:
  assumes "CHR '':'' \<notin> set mac"
  shows "ValidateToken H oob now secret (mac @ CHR '':'' # FormatInt (sint now)) =
     (if mac \<noteq> compute_hmac H secret (FormatInt (sint now)) then Inl InvalidSignature
      else Inr ())"
proof -
  have r: "- (2 ^ 63) \<le> sint now" "sint now < 2 ^ 63"
    using sint_ge [of now] sint_lt [of now] by simp_all
  have p: "ParseInt (FormatInt (sint now)) = Inr (sint now)"
    using r by (rule ParseInt_FormatInt)
  have "\<bar>sint now - sint now\<bar> \<le> 9223372036" by simp
  from token_age [OF r this, of oob]
  have a: "sint (int64_of_float oob \<bar>float64_of_int (sint (now - word_of_int (sint now)))\<bar>
             * Second) = 0"
    by simp
  show ?thesis
    unfolding ValidateToken_parts [OF assms p] a sint_token_validity by simp
qed

lemma GenerateToken_eq:
  "GenerateToken H now secret
     = compute_hmac H secret (FormatInt (sint now)) @ CHR '':'' # FormatInt (sint now)"
  by (simp add: GenerateToken_def Let_def)

lemma compute_hmac_no_colon: "CHR '':'' \<notin> set (compute_hmac H secret message)"
  by (simp add: compute_hmac_def EncodeToString_no_colon)

lemma many_colons:
  assumes "1 < count_list t (CHR '':'')"
  shows "\<exists>a r. t = a @ CHR '':'' # r \<and> CHR '':'' \<notin> set a \<and> CHR '':'' \<in> set r"
proof -
  have "count_list t (CHR '':'') \<noteq> 0" using assms by simp
  then have "CHR '':'' \<in> set t" by (simp add: count_list_0_iff)
  then obtain a r where t: "t = a @ CHR '':'' # r" and a: "CHR '':'' \<notin> set a"
    using split_list_first [of "CHR '':''" t] by blast
  have "count_list a (CHR '':'') = 0" using a by (simp add: count_list_0_iff)
  then have "count_list r (CHR '':'') \<noteq> 0"
    using assms unfolding t by simp
  then have "CHR '':'' \<in> set r" by (simp add: count_list_0_iff)
  with t a show ?thesis by blast
qed

lemma ValidateToken_colons:
  "(count_list t (CHR '':'') = 0 \<longrightarrow> ValidateToken H oob now secret t = Inl Malformed)
   \<and> (1 < count_list t (CHR '':'') \<longrightarrow>
        (\<exists>err. ValidateToken H oob now secret t = Inl (InvalidTimestamp err)))"
proof (intro conjI impI)
  assume "count_list t (CHR '':'') = 0"
  then have "CHR '':'' \<notin> set t" by (simp add: count_list_0_iff)
  then show "ValidateToken H oob now secret t = Inl Malformed"
    by (simp add: ValidateToken_def SplitN2_no_colon)
next
  assume "1 < count_list t (CHR '':'')"
  then obtain a r where t: "t = a @ CHR '':'' # r" and a: "CHR '':'' \<notin> set a"
    and r: "CHR '':'' \<in> set r"
    using many_colons by blast
  obtain err where "ParseInt r = Inl err" using ParseInt_colon [OF r] by blast
  then show "\<exists>err. ValidateToken H oob now secret t = Inl (InvalidTimestamp err)"
    unfolding t by (simp add: ValidateToken_def SplitN2_colon [OF a] Let_def)
qed

text \<open>Claim C1, as amended. A token validated at the time at which it was generated, with
  the secret it was generated with, is accepted. With another secret it fails with the
  signature error whenever the two secrets give different HMACs for the timestamp. A
  token with a timestamp that parses fails with the expired error when the timestamp is
  more than 300 seconds and at most 9,223,372,036 seconds away from the current time.
  A token with no colon is malformed, and a token with more than one colon is rejected
  for its timestamp.\<close>

theorem token_round_trip_and_rejection:
  fixes now now2 now3 :: "64 word"
  assumes "compute_hmac H s' (FormatInt (sint now)) \<noteq> compute_hmac H s (FormatInt (sint now))"
    and "CHR '':'' \<notin> set mac" and "ParseInt tsStr = Inr tsv"
    and "300 < \<bar>sint now2 - tsv\<bar>" and "\<bar>sint now2 - tsv\<bar> \<le> 9223372036"
    and "count_list t0 (CHR '':'') = 0" and "1 < count_list t2 (CHR '':'')"
  shows "ValidateToken H oob now s (GenerateToken H now s) = Inr ()
         \<and> ValidateToken H oob now s' (GenerateToken H now s) = Inl InvalidSignature
         \<and> ValidateToken H oob now2 s2 (mac @ '':'' @ tsStr) = Inl Expired
         \<and> ValidateToken H oob now3 s3 t0 = Inl Malformed
         \<and> (\<exists>err. ValidateToken H oob now3 s3 t2 = Inl (InvalidTimestamp err))"
proof (intro conjI)
  let ?ts = "FormatInt (sint now)"
  have nc: "CHR '':'' \<notin> set (compute_hmac H s ?ts)" by (rule compute_hmac_no_colon)
  show "ValidateToken H oob now s (GenerateToken H now s) = Inr ()"
    unfolding GenerateToken_eq ValidateToken_fresh [OF nc] by simp
  show "ValidateToken H oob now s' (GenerateToken H now s) = Inl InvalidSignature"
    unfolding GenerateToken_eq ValidateToken_fresh [OF nc] using assms(1) by simp
  have r: "- (2 ^ 63) \<le> tsv" "tsv < 2 ^ 63"
    using ParseInt_range [OF assms(3)] by simp_all
  have "sint (int64_of_float oob \<bar>float64_of_int (sint (now2 - word_of_int tsv))\<bar> * Second)
        = \<bar>sint now2 - tsv\<bar> * 1000000000"
    using r assms(5) by (rule token_age)
  moreover have "300 * 1000000000 < \<bar>sint now2 - tsv\<bar> * 1000000000"
    using assms(4) by simp
  ultimately have "sint (int64_of_float oob \<bar>float64_of_int (sint (now2 - word_of_int tsv))\<bar>
        * Second) > sint token_validity"
    by (simp add: sint_token_validity)
  then show "ValidateToken H oob now2 s2 (mac @ '':'' @ tsStr) = Inl Expired"
    using ValidateToken_parts [OF assms(2,3), of H oob now2 s2] by simp
  show "ValidateToken H oob now3 s3 t0 = Inl Malformed"
    using ValidateToken_colons [of t0 H oob now3 s3] assms(6) by blast
  show "\<exists>err. ValidateToken H oob now3 s3 t2 = Inl (InvalidTimestamp err)"
    using ValidateToken_colons [of t2 H oob now3 s3] assms(7) by blast
qed

text \<open>Two secrets of fewer than 64 bytes that differ only in a trailing zero byte have the
  same HMAC: the shorter key is padded with that zero.\<close>

lemma hmac_sum_zero_pad:
  assumes "length key < 64"
  shows "hmac_sum H (key @ [0]) message = hmac_sum H key message"
proof -
  have "64 - length key = Suc (64 - length (key @ [0]))" using assms by simp
  then have "replicate (64 - length key) (0 :: byte) = 0 # replicate (64 - length (key @ [0])) 0"
    by (simp only: replicate_Suc)
  then have "(key @ [0]) @ replicate (64 - length (key @ [0])) (0 :: byte)
             = key @ replicate (64 - length key) 0"
    by simp
  moreover have "\<not> length (key @ [0 :: byte]) > 64" "\<not> length key > 64"
    using assms by simp_all
  ultimately show ?thesis
    unfolding hmac_sum_def Let_def by (simp only: if_False)
qed

lemma compute_hmac_zero_pad:
  assumes "length secret < 64"
  shows "compute_hmac H (secret @ [CHR 0x00]) message = compute_hmac H secret message"
proof -
  have "bytes_of (secret @ [CHR 0x00]) = bytes_of secret @ [0]"
    by (simp add: bytes_of_def)
  moreover have "length (bytes_of secret) < 64" using assms by (simp add: bytes_of_def)
  ultimately show ?thesis by (simp add: compute_hmac_def hmac_sum_zero_pad)
qed

lemma ValidateToken_zero_padded_secret:
  assumes "length secret < 64"
  shows "ValidateToken H oob now (secret @ [CHR 0x00]) (GenerateToken H now secret) = Inr ()"
proof -
  have nc: "CHR '':'' \<notin> set (compute_hmac H secret (FormatInt (sint now)))"
    by (rule compute_hmac_no_colon)
  show ?thesis
    unfolding GenerateToken_eq ValidateToken_fresh [OF nc]
    by (simp add: compute_hmac_zero_pad [OF assms])
qed

lemma ParseInt_old: "ParseInt ''-7523372037'' = Inr (- 7523372037)"
  by (simp add: ParseInt_def is_digit_def digit_val_def Let_def)

text \<open>A timestamp 9,223,372,037 seconds before the current time: the age in nanoseconds
  does not fit into 64 bits, the product with \<open>time.Second\<close> wraps around to a negative
  duration, and the token passes the expiry check.\<close>

lemma token_age_wraps:
  "sint (int64_of_float oob
          \<bar>float64_of_int (sint ((1700000000 :: 64 word) - word_of_int (- 7523372037)))\<bar>
         * Second) = - 9223372036709551616"
proof -
  have d: "(1700000000 :: 64 word) - word_of_int (- 7523372037) = 9223372037" by simp
  have s: "sint (9223372037 :: 64 word) = 9223372037" by simp
  have f: "float64_of_int 9223372037 = 9223372037"
    by (rule float64_of_int_exact) simp
  have i: "int64_of_float oob \<bar>9223372037\<bar> = 9223372037"
    by (simp add: int64_of_float_def)
  show ?thesis
    unfolding d s f i by (simp add: Second_def)
qed

lemma ValidateToken_never_expires:
  "ValidateToken H oob 1700000000 secret
     (compute_hmac H secret ''-7523372037'' @ '':-7523372037'') = Inr ()"
proof -
  have nc: "CHR '':'' \<notin> set (compute_hmac H secret ''-7523372037'')"
    by (rule compute_hmac_no_colon)
  have n: "\<not> (- 9223372036709551616 :: int) > 300000000000" by simp
  show ?thesis
    by (simp only: ValidateToken_parts [OF nc ParseInt_old] token_age_wraps sint_token_validity
          n if_False simp_thms)
qed

text \<open>The claim as stated fails in two places, for every hash function; \<open>take 1\<close> stands
  for it here. The secret \<open>a\<close> followed by a zero byte is another secret than \<open>a\<close> and
  validates the tokens of \<open>a\<close>. And a token whose timestamp lies 9,223,372,037 seconds
  (more than 5 minutes) in the past is accepted, not rejected as expired.\<close>

theorem token_rejection_counterexample:
  "''a'' @ [CHR 0x00] \<noteq> ''a''
   \<and> ValidateToken (take 1) (2 ^ 63) 1700000000 (''a'' @ [CHR 0x00])
        (GenerateToken (take 1) 1700000000 ''a'') = Inr ()
   \<and> \<bar>sint (1700000000 :: 64 word) - (- 7523372037)\<bar> > 300
   \<and> ValidateToken (take 1) (2 ^ 63) 1700000000 ''a''
        (compute_hmac (take 1) ''a'' ''-7523372037'' @ '':-7523372037'') = Inr ()"
proof -
  have 1: "ValidateToken (take 1) (2 ^ 63) 1700000000 (''a'' @ [CHR 0x00])
        (GenerateToken (take 1) 1700000000 ''a'') = Inr ()"
    by (rule ValidateToken_zero_padded_secret) simp
  have 2: "ValidateToken (take 1) (2 ^ 63) 1700000000 ''a''
        (compute_hmac (take 1) ''a'' ''-7523372037'' @ '':-7523372037'') = Inr ()"
    by (rule ValidateToken_never_expires)
  have 3: "\<bar>sint (1700000000 :: 64 word) - (- 7523372037)\<bar> > 300" by simp
  have 4: "''a'' @ [CHR 0x00] \<noteq> ''a''" by simp
  from 1 2 3 4 show ?thesis by blast
qed

lemma compute_hmac_take1:
  "compute_hmac (take 1) ''a'' message = ''3d''"
  "compute_hmac (take 1) ''b'' message = ''3e''"
  by (simp_all add: compute_hmac_def hmac_sum_def bytes_of_def EncodeToString_def hextable_def)

lemma ParseInt_recent: "ParseInt ''1699990000'' = Inr 1699990000"
  by (simp add: ParseInt_def is_digit_def digit_val_def Let_def)

theorem token_round_trip_and_rejection_witness:
  "compute_hmac (take 1) ''b'' (FormatInt (sint (1700000000 :: 64 word)))
     \<noteq> compute_hmac (take 1) ''a'' (FormatInt (sint (1700000000 :: 64 word)))
   \<and> CHR '':'' \<notin> set ''00''
   \<and> ParseInt ''1699990000'' = Inr 1699990000
   \<and> 300 < \<bar>sint (1700000000 :: 64 word) - 1699990000\<bar>
   \<and> \<bar>sint (1700000000 :: 64 word) - 1699990000\<bar> \<le> 9223372036
   \<and> count_list ''not-a-valid-token'' (CHR '':'') = 0
   \<and> 1 < count_list ''3d:1700000000:1'' (CHR '':'')
   \<and> ValidateToken (take 1) (2 ^ 63) 1700000000 ''a''
         (GenerateToken (take 1) 1700000000 ''a'') = Inr ()
   \<and> ValidateToken (take 1) (2 ^ 63) 1700000000 ''b''
         (GenerateToken (take 1) 1700000000 ''a'') = Inl InvalidSignature
   \<and> ValidateToken (take 1) (2 ^ 63) 1700000000 ''a'' ''00:1699990000'' = Inl Expired
   \<and> ValidateToken (take 1) (2 ^ 63) 1700000000 ''a'' ''not-a-valid-token'' = Inl Malformed
   \<and> (\<exists>err. ValidateToken (take 1) (2 ^ 63) 1700000000 ''a'' ''3d:1700000000:1''
               = Inl (InvalidTimestamp err))"
proof -
  have h1: "compute_hmac (take 1) ''b'' (FormatInt (sint (1700000000 :: 64 word)))
     \<noteq> compute_hmac (take 1) ''a'' (FormatInt (sint (1700000000 :: 64 word)))"
    by (simp only: compute_hmac_take1) simp
  have h2: "CHR '':'' \<notin> set ''00''" by simp
  have h4: "300 < \<bar>sint (1700000000 :: 64 word) - 1699990000\<bar>" by simp
  have h5: "\<bar>sint (1700000000 :: 64 word) - 1699990000\<bar> \<le> 9223372036" by simp
  have h6: "count_list ''not-a-valid-token'' (CHR '':'') = 0" by simp
  have h7: "1 < count_list ''3d:1700000000:1'' (CHR '':'')" by simp
  have e: "''00'' @ '':'' @ ''1699990000'' = ''00:1699990000''" by simp
  show ?thesis
    using h1 h2 ParseInt_recent h4 h5 h6 h7
      token_round_trip_and_rejection [OF h1 h2 ParseInt_recent h4 h5 h6 h7,
        of "2 ^ 63" "''a''" "1700000000" "''a''"]
    unfolding e by blast
qed

end
